theory Spec2Isabelle
  imports Main "HOL-Library.Word" "HOL-Library.Sublist"
begin

section \<open>Data of the validator application\<close>

text \<open>
  The embedding follows \<^verbatim>\<open>service/event_loop.go\<close>. Byte strings (public keys, hashes,
  signatures, marshalled randomness) are lists of bytes, heights are Go's \<^verbatim>\<open>uint64\<close>, and a
  Go channel that carries a reply is known by its identity.
\<close>

type_synonym bytes = "8 word list"
type_synonym uint64 = "64 word"
type_synonym chan = nat

datatype error = Err string

datatype ValidatorStatus = CREATED | REGISTERED | ACTIVE

text \<open>
  \<^verbatim>\<open>proto.StoreValidator\<close> and \<^verbatim>\<open>proto.SchnorrRandPair\<close>: the fields the loops read and
  write, with the attributes the data model of the specification lists for a validator.
\<close>

record StoreValidator =
  BabylonPk :: bytes
  BtcPk :: bytes
  Status :: ValidatorStatus
  LastVotedHeight :: uint64
  LastCommittedHeight :: uint64

record SchnorrRandPair =
  SecRand :: bytes
  PubRand :: bytes

subsection \<open>Requests and completion events\<close>

text \<open>
  One record per Go struct, with the fields \<^verbatim>\<open>event_loop.go\<close> uses. A public key
  \<^verbatim>\<open>bbnPubKey\<close> stands for its \<^verbatim>\<open>Key\<close> bytes, a secret randomness for the result of its
  \<^verbatim>\<open>Bytes()\<close> and a public randomness for the result of its \<^verbatim>\<open>MustMarshal()\<close>.
  The payload of a create-validator request and of its response is declared outside the
  loops and is carried as encoded bytes.
\<close>

record createValidatorRequest =
  payload :: bytes
  errResponse :: chan
  successResponse :: chan

record addFinalitySigRequest =
  bbnPubKey :: bytes
  valBtcPk :: bytes
  blockHeight :: uint64
  blockLastCommitHash :: bytes
  sig :: bytes
  errResponse :: chan
  successResponse :: chan

record registerValidatorRequest =
  bbnPubKey :: bytes
  btcPubKey :: bytes
  pop :: bytes
  errResponse :: chan
  successResponse :: chan

record commitPubRandRequest =
  startingHeight :: uint64
  bbnPubKey :: bytes
  valBtcPk :: bytes
  privRandList :: "bytes list"
  pubRandList :: "bytes list"
  sig :: bytes
  errResponse :: chan
  successResponse :: chan

record addJurySigRequest =
  bbnPubKey :: bytes
  valBtcPk :: bytes
  delBtcPk :: bytes
  sig :: bytes
  errResponse :: chan
  successResponse :: chan

record finalitySigAddedEvent =
  bbnPubKey :: bytes
  height :: uint64
  txHash :: bytes
  successResponse :: chan

record validatorRegisteredEvent =
  bbnPubKey :: bytes
  txHash :: bytes
  successResponse :: chan

record pubRandCommittedEvent =
  startingHeight :: uint64
  bbnPubKey :: bytes
  valBtcPk :: bytes
  privRandList :: "bytes list"
  pubRandList :: "bytes list"
  txHash :: bytes
  successResponse :: chan

record jurySigAddedEvent =
  bbnPubKey :: bytes
  txHash :: bytes
  successResponse :: chan

text \<open>What is sent on a reply channel: an error, or the response struct with its \<^verbatim>\<open>txHash\<close>.\<close>

datatype msg =
    ErrorMsg error
  | createValidatorResponse bytes
  | addFinalitySigResponse bytes
  | registerValidatorResponse bytes
  | commitPubRandResponse bytes
  | addJurySigResponse bytes

subsection \<open>The validator store\<close>

text \<open>
  The store keeps validators by identity and randomness pairs by identity and height.
  Its backend is outside the repository: whether a coming durable write fails is an input
  of the model, the list \<open>faults\<close> (\<open>True\<close>: the next write fails), read one entry per
  write; once the list is used up every write succeeds.
\<close>

record ValidatorStore =
  validators :: "bytes \<rightharpoonup> StoreValidator"
  randPairs :: "bytes \<times> uint64 \<rightharpoonup> SchnorrRandPair"
  faults :: "bool list"

definition StorageError :: error where
  "StorageError = Err ''storage error''"

definition NotFound :: error where
  "NotFound = Err ''validator not found''"

definition durable_write ::
  "ValidatorStore \<Rightarrow> (ValidatorStore \<Rightarrow> ValidatorStore) \<Rightarrow> error option \<times> ValidatorStore" where
  "durable_write s upd =
     (case faults s of
        [] \<Rightarrow> (None, upd s)
      | f # fs \<Rightarrow>
          if f then (Some StorageError, s\<lparr>faults := fs\<rparr>)
          else (None, upd (s\<lparr>faults := fs\<rparr>)))"

text \<open>
  Modelled from the spec: \<^verbatim>\<open>ValidatorStore.GetValidator\<close>, which is not under src/.
  \<^verbatim>\<open>Get(identity)\<close> returns the validator stored under the identity, or NotFound.
\<close>

definition GetValidator :: "ValidatorStore \<Rightarrow> bytes \<Rightarrow> error + StoreValidator" where
  "GetValidator s k = (case validators s k of None \<Rightarrow> Inl NotFound | Some v \<Rightarrow> Inr v)"

text \<open>
  Modelled from the spec: \<^verbatim>\<open>ValidatorStore.SaveValidator\<close>, which is not under src/.
  \<^verbatim>\<open>Save(Validator)\<close> stores the record under the validator's identity, or fails with a
  storage error.
\<close>

definition SaveValidator :: "ValidatorStore \<Rightarrow> StoreValidator \<Rightarrow> error option \<times> ValidatorStore" where
  "SaveValidator s val =
     durable_write s (\<lambda>t. t\<lparr>validators := (validators t)(BabylonPk val \<mapsto> val)\<rparr>)"

text \<open>
  Modelled from the spec: \<^verbatim>\<open>ValidatorStore.SetValidatorStatus\<close>, which is not under src/.
  The status is set and the validator persisted.
\<close>

definition SetValidatorStatus ::
  "ValidatorStore \<Rightarrow> StoreValidator \<Rightarrow> ValidatorStatus \<Rightarrow> error option \<times> ValidatorStore" where
  "SetValidatorStatus s val st = SaveValidator s (val\<lparr>Status := st\<rparr>)"

text \<open>
  Modelled from the spec: \<^verbatim>\<open>ValidatorStore.SetValidatorLastVotedHeight\<close>, which is not
  under src/. \<^verbatim>\<open>LastVotedHeight\<close> is set to the signed height if that is greater than the
  current value, and the validator is persisted.
\<close>

definition SetValidatorLastVotedHeight ::
  "ValidatorStore \<Rightarrow> StoreValidator \<Rightarrow> uint64 \<Rightarrow> error option \<times> ValidatorStore" where
  "SetValidatorLastVotedHeight s val h =
     SaveValidator s (if LastVotedHeight val < h then val\<lparr>LastVotedHeight := h\<rparr> else val)"

text \<open>
  Modelled from the spec: \<^verbatim>\<open>ValidatorStore.SaveRandPair\<close>, which is not under src/.
  \<^verbatim>\<open>SaveRandPair(identity, height, secretRand, pubRand)\<close> writes the record of the height,
  or fails with a storage error; a record already written is never overwritten (the
  second write is a no-op).
\<close>

definition SaveRandPair ::
  "ValidatorStore \<Rightarrow> bytes \<Rightarrow> uint64 \<Rightarrow> SchnorrRandPair \<Rightarrow> error option \<times> ValidatorStore" where
  "SaveRandPair s k h p =
     durable_write s (\<lambda>t. case randPairs t (k, h) of
                            None \<Rightarrow> t\<lparr>randPairs := (randPairs t)((k, h) \<mapsto> p)\<rparr>
                          | Some _ \<Rightarrow> t)"

subsection \<open>The application state and its observable effects\<close>

text \<open>
  The calls the chain client \<^verbatim>\<open>app.bc\<close> receives. The client is not under src/: its answer
  is a parameter \<open>bc\<close> of the serializer, a function of the calls made so far and of the
  call, returning an error or the transaction hash.
\<close>

datatype chain_call =
    SubmitFinalitySig bytes uint64 bytes bytes
  | RegisterValidator bytes bytes bytes
  | CommitPubRandList bytes uint64 "bytes list" bytes
  | SubmitJurySig bytes bytes bytes

type_synonym BabylonController = "chain_call list \<Rightarrow> chain_call \<Rightarrow> error + bytes"

datatype level = ErrorLevel | FatalLevel | InfoLevel

datatype store_call =
    CallSetValidatorLastVotedHeight StoreValidator uint64
  | CallSetValidatorStatus StoreValidator ValidatorStatus
  | CallSaveValidator StoreValidator
  | CallSaveRandPair bytes uint64 SchnorrRandPair

text \<open>
  What a loop does, in the order it does it: a value sent on a reply channel, a log entry,
  a call of the store with its outcome (\<open>True\<close>: the write succeeded).
\<close>

datatype effect =
    Send chan msg
  | Log level string "error option"
  | Store store_call bool

text \<open>
  A channel of requests or events holds what its senders have handed over and the loop has
  not received yet, oldest first. \<open>calls\<close> lists the calls the chain client has received,
  oldest first, and \<open>quit\<close> tells whether the quit channel is closed.
\<close>

record ValidatorApp =
  vs :: ValidatorStore
  calls :: "chain_call list"
  quit :: bool
  createValidatorRequestChan :: "createValidatorRequest list"
  addFinalitySigRequestChan :: "addFinalitySigRequest list"
  registerValidatorRequestChan :: "registerValidatorRequest list"
  commitPubRandRequestChan :: "commitPubRandRequest list"
  addJurySigRequestChan :: "addJurySigRequest list"
  finalitySigAddedEventChan :: "finalitySigAddedEvent list"
  validatorRegisteredEventChan :: "validatorRegisteredEvent list"
  pubRandCommittedEventChan :: "pubRandCommittedEvent list"
  jurySigAddedEventChan :: "jurySigAddedEvent list"
  trace :: "effect list"

text \<open>
  How an iteration of a loop ends: the loop goes on, the process has exited
  (\<^verbatim>\<open>logger.Fatal\<close> logs and calls \<^verbatim>\<open>os.Exit(1)\<close>), the goroutine has panicked (an index out of
  range), or the loop has returned on quit.
\<close>

datatype status = Continue | Exited | Panicked | Returned

text \<open>
  \<open>send\<close> records that the loop has reached the send statement \<^verbatim>\<open>c <- m\<close>, and \<open>logger\<close> a
  log call. The handlers below give the state of an iteration whose sends complete. A send
  completes only when a receiver or a free buffer slot is ready on its channel: what an
  iteration comes to when one is not is \<open>await_sends\<close>, in the section on blocking sends.
\<close>

definition send :: "chan \<Rightarrow> msg \<Rightarrow> ValidatorApp \<Rightarrow> ValidatorApp" where
  "send c m app = app\<lparr>trace := trace app @ [Send c m]\<rparr>"

definition logger :: "level \<Rightarrow> string \<Rightarrow> error option \<Rightarrow> ValidatorApp \<Rightarrow> ValidatorApp" where
  "logger l m e app = app\<lparr>trace := trace app @ [Log l m e]\<rparr>"

definition Fatal :: "string \<Rightarrow> ValidatorApp \<Rightarrow> status \<times> ValidatorApp" where
  "Fatal m app = (Exited, logger FatalLevel m None app)"

fun exec_store :: "store_call \<Rightarrow> ValidatorStore \<Rightarrow> error option \<times> ValidatorStore" where
  "exec_store (CallSetValidatorLastVotedHeight val h) s = SetValidatorLastVotedHeight s val h"
| "exec_store (CallSetValidatorStatus val st) s = SetValidatorStatus s val st"
| "exec_store (CallSaveValidator val) s = SaveValidator s val"
| "exec_store (CallSaveRandPair k h p) s = SaveRandPair s k h p"

definition call_vs :: "store_call \<Rightarrow> ValidatorApp \<Rightarrow> error option \<times> ValidatorApp" where
  "call_vs c app =
     (case exec_store c (vs app) of
        (e, s) \<Rightarrow> (e, app\<lparr>vs := s, trace := trace app @ [Store c (e = None)]\<rparr>))"

section \<open>The event loop\<close>

text \<open>\<^verbatim>\<open>case ev := <-app.finalitySigAddedEventChan\<close>\<close>

definition on_finalitySigAdded :: "finalitySigAddedEvent \<Rightarrow> ValidatorApp \<Rightarrow> status \<times> ValidatorApp" where
  "on_finalitySigAdded ev app =
     (case GetValidator (vs app) (finalitySigAddedEvent.bbnPubKey ev) of
        Inl e \<Rightarrow> Fatal ''finality signature added validator not found in DB'' app
      | Inr val \<Rightarrow>
          (case call_vs (CallSetValidatorLastVotedHeight val (height ev)) app of
             (Some e, app1) \<Rightarrow>
               Fatal ''err while updating the validator last voted height to DB'' app1
           | (None, app1) \<Rightarrow>
               (Continue,
                send (finalitySigAddedEvent.successResponse ev)
                  (addFinalitySigResponse (finalitySigAddedEvent.txHash ev)) app1)))"

text \<open>\<^verbatim>\<open>case ev := <-app.validatorRegisteredEventChan\<close>\<close>

definition on_validatorRegistered ::
  "validatorRegisteredEvent \<Rightarrow> ValidatorApp \<Rightarrow> status \<times> ValidatorApp" where
  "on_validatorRegistered ev app =
     (case GetValidator (vs app) (validatorRegisteredEvent.bbnPubKey ev) of
        Inl e \<Rightarrow> Fatal ''Registred validator not found in DB'' app
      | Inr val \<Rightarrow>
          (case call_vs (CallSetValidatorStatus val REGISTERED) app of
             (Some e, app1) \<Rightarrow> Fatal ''err while saving validator to DB'' app1
           | (None, app1) \<Rightarrow>
               (Continue,
                send (validatorRegisteredEvent.successResponse ev)
                  (registerValidatorResponse (validatorRegisteredEvent.txHash ev)) app1)))"

text \<open>
  The loop \<^verbatim>\<open>for i, pr := range ev.privRandList\<close>: \<open>i\<close> is the index of the head of the
  secret values still to store. \<^verbatim>\<open>ev.pubRandList[i]\<close> panics when \<open>i\<close> is out of range, before
  the pair of that index is saved.
\<close>

fun save_rand_pairs ::
  "bytes \<Rightarrow> uint64 \<Rightarrow> bytes list \<Rightarrow> nat \<Rightarrow> bytes list \<Rightarrow> ValidatorApp \<Rightarrow> status \<times> ValidatorApp" where
  "save_rand_pairs k start pub i [] app = (Continue, app)"
| "save_rand_pairs k start pub i (pr # prs) app =
     (if i < length pub then
        (case call_vs (CallSaveRandPair k (start + word_of_nat i)
                         \<lparr>SecRand = pr, PubRand = pub ! i\<rparr>) app of
           (Some e, app1) \<Rightarrow> Fatal ''err while saving committed random pair to DB'' app1
         | (None, app1) \<Rightarrow> save_rand_pairs k start pub (Suc i) prs app1)
      else (Panicked, app))"

text \<open>
  \<^verbatim>\<open>case ev := <-app.pubRandCommittedEventChan\<close>. The new height is
  \<^verbatim>\<open>ev.startingHeight + uint64(len(ev.pubRandList)-1)\<close>: the length is a signed \<^verbatim>\<open>int\<close>, and
  the conversion of \<open>-1\<close> wraps around.
\<close>

definition on_pubRandCommitted :: "pubRandCommittedEvent \<Rightarrow> ValidatorApp \<Rightarrow> status \<times> ValidatorApp" where
  "on_pubRandCommitted ev app =
     (case GetValidator (vs app) (pubRandCommittedEvent.bbnPubKey ev) of
        Inl e \<Rightarrow> Fatal ''Public randomness committed validator not found in DB'' app
      | Inr val \<Rightarrow>
          (let val1 = val\<lparr>LastCommittedHeight :=
                 pubRandCommittedEvent.startingHeight ev
                 + word_of_int (int (length (pubRandCommittedEvent.pubRandList ev)) - 1)\<rparr>
           in case call_vs (CallSaveValidator val1) app of
                (Some e, app1) \<Rightarrow> Fatal ''err while saving validator to DB'' app1
              | (None, app1) \<Rightarrow>
                  (case save_rand_pairs (pubRandCommittedEvent.bbnPubKey ev)
                          (pubRandCommittedEvent.startingHeight ev)
                          (pubRandCommittedEvent.pubRandList ev) 0
                          (pubRandCommittedEvent.privRandList ev) app1 of
                     (Continue, app2) \<Rightarrow>
                       (Continue,
                        send (pubRandCommittedEvent.successResponse ev)
                          (commitPubRandResponse (pubRandCommittedEvent.txHash ev)) app2)
                   | (st, app2) \<Rightarrow> (st, app2))))"

text \<open>\<^verbatim>\<open>case ev := <-app.jurySigAddedEventChan\<close>\<close>

definition on_jurySigAdded :: "jurySigAddedEvent \<Rightarrow> ValidatorApp \<Rightarrow> status \<times> ValidatorApp" where
  "on_jurySigAdded ev app =
     (Continue,
      send (jurySigAddedEvent.successResponse ev)
        (addJurySigResponse (jurySigAddedEvent.txHash ev)) app)"

text \<open>
  \<^verbatim>\<open>case req := <-app.createValidatorRequestChan\<close>. \<^verbatim>\<open>handleCreateValidatorRequest\<close> is
  not under src/: it is the parameter \<open>hcv\<close>, which reads the request and the store and
  returns an error or a response, and the store it leaves.
\<close>

type_synonym create_handler =
  "createValidatorRequest \<Rightarrow> ValidatorStore \<Rightarrow> (error + bytes) \<times> ValidatorStore"

definition on_createValidatorRequest ::
  "create_handler \<Rightarrow> createValidatorRequest \<Rightarrow> ValidatorApp \<Rightarrow> status \<times> ValidatorApp" where
  "on_createValidatorRequest hcv req app =
     (case hcv req (vs app) of
        (Inl e, s) \<Rightarrow>
          (Continue, send (createValidatorRequest.errResponse req) (ErrorMsg e) (app\<lparr>vs := s\<rparr>))
      | (Inr resp, s) \<Rightarrow>
          (Continue,
           send (createValidatorRequest.successResponse req) (createValidatorResponse resp)
             (app\<lparr>vs := s\<rparr>)))"

text \<open>
  One iteration of \<^verbatim>\<open>eventLoop\<close>. Which ready case the \<^verbatim>\<open>select\<close> takes is an input (Go
  chooses among the ready cases at random); a case whose channel has nothing to receive
  cannot be taken, which is the result \<open>None\<close>.
\<close>

datatype eventLoop_case =
    RecvCreateValidatorRequest
  | RecvFinalitySigAdded
  | RecvValidatorRegistered
  | RecvPubRandCommitted
  | RecvJurySigAdded
  | RecvQuit

fun eventLoop_step ::
  "create_handler \<Rightarrow> eventLoop_case \<Rightarrow> ValidatorApp \<Rightarrow> (status \<times> ValidatorApp) option" where
  "eventLoop_step hcv RecvCreateValidatorRequest app =
     (case createValidatorRequestChan app of
        [] \<Rightarrow> None
      | req # q \<Rightarrow> Some (on_createValidatorRequest hcv req (app\<lparr>createValidatorRequestChan := q\<rparr>)))"
| "eventLoop_step hcv RecvFinalitySigAdded app =
     (case finalitySigAddedEventChan app of
        [] \<Rightarrow> None
      | ev # q \<Rightarrow> Some (on_finalitySigAdded ev (app\<lparr>finalitySigAddedEventChan := q\<rparr>)))"
| "eventLoop_step hcv RecvValidatorRegistered app =
     (case validatorRegisteredEventChan app of
        [] \<Rightarrow> None
      | ev # q \<Rightarrow> Some (on_validatorRegistered ev (app\<lparr>validatorRegisteredEventChan := q\<rparr>)))"
| "eventLoop_step hcv RecvPubRandCommitted app =
     (case pubRandCommittedEventChan app of
        [] \<Rightarrow> None
      | ev # q \<Rightarrow> Some (on_pubRandCommitted ev (app\<lparr>pubRandCommittedEventChan := q\<rparr>)))"
| "eventLoop_step hcv RecvJurySigAdded app =
     (case jurySigAddedEventChan app of
        [] \<Rightarrow> None
      | ev # q \<Rightarrow> Some (on_jurySigAdded ev (app\<lparr>jurySigAddedEventChan := q\<rparr>)))"
| "eventLoop_step hcv RecvQuit app = (if quit app then Some (Returned, app) else None)"

text \<open>
  The loop over a schedule of cases: it stops at the first iteration that does not end in
  \<open>Continue\<close>.
\<close>

fun eventLoop ::
  "create_handler \<Rightarrow> eventLoop_case list \<Rightarrow> ValidatorApp \<Rightarrow> (status \<times> ValidatorApp) option" where
  "eventLoop hcv [] app = Some (Continue, app)"
| "eventLoop hcv (c # cs) app =
     (case eventLoop_step hcv c app of
        None \<Rightarrow> None
      | Some (Continue, app1) \<Rightarrow> eventLoop hcv cs app1
      | Some (st, app1) \<Rightarrow> Some (st, app1))"

text \<open>
  The completion events as one type, and the body of the \<^verbatim>\<open>select\<close> case that receives each:
  the properties below speak of all of them at once.
\<close>

datatype event =
    FinalitySigAdded finalitySigAddedEvent
  | ValidatorRegistered validatorRegisteredEvent
  | PubRandCommitted pubRandCommittedEvent
  | JurySigAdded jurySigAddedEvent

fun on_event :: "event \<Rightarrow> ValidatorApp \<Rightarrow> status \<times> ValidatorApp" where
  "on_event (FinalitySigAdded ev) app = on_finalitySigAdded ev app"
| "on_event (ValidatorRegistered ev) app = on_validatorRegistered ev app"
| "on_event (PubRandCommitted ev) app = on_pubRandCommitted ev app"
| "on_event (JurySigAdded ev) app = on_jurySigAdded ev app"

section \<open>The submission serializer\<close>

text \<open>A call of \<^verbatim>\<open>app.bc\<close>: the client answers, and has received one more call.\<close>

definition call_bc ::
  "BabylonController \<Rightarrow> chain_call \<Rightarrow> ValidatorApp \<Rightarrow> (error + bytes) \<times> ValidatorApp" where
  "call_bc bc c app = (bc (calls app) c, app\<lparr>calls := calls app @ [c]\<rparr>)"

text \<open>\<^verbatim>\<open>case req := <-app.addFinalitySigRequestChan\<close>\<close>

definition on_addFinalitySigRequest ::
  "BabylonController \<Rightarrow> addFinalitySigRequest \<Rightarrow> ValidatorApp \<Rightarrow> status \<times> ValidatorApp" where
  "on_addFinalitySigRequest bc req app =
     (case call_bc bc (SubmitFinalitySig (addFinalitySigRequest.valBtcPk req) (blockHeight req)
                         (blockLastCommitHash req) (addFinalitySigRequest.sig req)) app of
        (Inl e, app1) \<Rightarrow>
          (Continue,
           send (addFinalitySigRequest.errResponse req) (ErrorMsg e)
             (logger ErrorLevel ''failed to submit finality signature'' (Some e) app1))
      | (Inr tx, app1) \<Rightarrow>
          (let app2 = logger InfoLevel ''successfully submitted a finality signature to babylon''
                        None app1
           in (Continue,
               app2\<lparr>finalitySigAddedEventChan := finalitySigAddedEventChan app2 @
                 [\<lparr>finalitySigAddedEvent.bbnPubKey = addFinalitySigRequest.bbnPubKey req,
                   height = blockHeight req,
                   finalitySigAddedEvent.txHash = tx,
                   finalitySigAddedEvent.successResponse =
                     addFinalitySigRequest.successResponse req\<rparr>]\<rparr>)))"

text \<open>\<^verbatim>\<open>case req := <-app.registerValidatorRequestChan\<close>\<close>

definition on_registerValidatorRequest ::
  "BabylonController \<Rightarrow> registerValidatorRequest \<Rightarrow> ValidatorApp \<Rightarrow> status \<times> ValidatorApp" where
  "on_registerValidatorRequest bc req app =
     (case call_bc bc (RegisterValidator (registerValidatorRequest.bbnPubKey req) (btcPubKey req)
                         (pop req)) app of
        (Inl e, app1) \<Rightarrow>
          (Continue,
           send (registerValidatorRequest.errResponse req) (ErrorMsg e)
             (logger ErrorLevel ''failed to register validator'' (Some e) app1))
      | (Inr tx, app1) \<Rightarrow>
          (let app2 = logger InfoLevel ''successfully registered validator on babylon'' None app1
           in (Continue,
               app2\<lparr>validatorRegisteredEventChan := validatorRegisteredEventChan app2 @
                 [\<lparr>validatorRegisteredEvent.bbnPubKey = registerValidatorRequest.bbnPubKey req,
                   validatorRegisteredEvent.txHash = tx,
                   validatorRegisteredEvent.successResponse =
                     registerValidatorRequest.successResponse req\<rparr>]\<rparr>)))"

text \<open>\<^verbatim>\<open>case req := <-app.commitPubRandRequestChan\<close>\<close>

definition on_commitPubRandRequest ::
  "BabylonController \<Rightarrow> commitPubRandRequest \<Rightarrow> ValidatorApp \<Rightarrow> status \<times> ValidatorApp" where
  "on_commitPubRandRequest bc req app =
     (case call_bc bc (CommitPubRandList (commitPubRandRequest.valBtcPk req)
                         (commitPubRandRequest.startingHeight req)
                         (commitPubRandRequest.pubRandList req)
                         (commitPubRandRequest.sig req)) app of
        (Inl e, app1) \<Rightarrow>
          (Continue,
           send (commitPubRandRequest.errResponse req) (ErrorMsg e)
             (logger ErrorLevel ''failed to commit public randomness'' (Some e) app1))
      | (Inr tx, app1) \<Rightarrow>
          (let app2 = logger InfoLevel ''successfully committed public rand list on babylon''
                        None app1
           in (Continue,
               app2\<lparr>pubRandCommittedEventChan := pubRandCommittedEventChan app2 @
                 [\<lparr>pubRandCommittedEvent.startingHeight = commitPubRandRequest.startingHeight req,
                   pubRandCommittedEvent.bbnPubKey = commitPubRandRequest.bbnPubKey req,
                   pubRandCommittedEvent.valBtcPk = commitPubRandRequest.valBtcPk req,
                   pubRandCommittedEvent.privRandList = commitPubRandRequest.privRandList req,
                   pubRandCommittedEvent.pubRandList = commitPubRandRequest.pubRandList req,
                   pubRandCommittedEvent.txHash = tx,
                   pubRandCommittedEvent.successResponse =
                     commitPubRandRequest.successResponse req\<rparr>]\<rparr>)))"

text \<open>\<^verbatim>\<open>case req := <-app.addJurySigRequestChan\<close>\<close>

definition on_addJurySigRequest ::
  "BabylonController \<Rightarrow> addJurySigRequest \<Rightarrow> ValidatorApp \<Rightarrow> status \<times> ValidatorApp" where
  "on_addJurySigRequest bc req app =
     (case call_bc bc (SubmitJurySig (addJurySigRequest.valBtcPk req) (delBtcPk req)
                         (addJurySigRequest.sig req)) app of
        (Inl e, app1) \<Rightarrow>
          (Continue,
           send (addJurySigRequest.errResponse req) (ErrorMsg e)
             (logger ErrorLevel ''failed to submit Jury signature'' (Some e) app1))
      | (Inr tx, app1) \<Rightarrow>
          (let app2 = logger InfoLevel
                        ''successfully submit Jury sig over Bitcoin delegation to Babylon''
                        None app1
           in (Continue,
               app2\<lparr>jurySigAddedEventChan := jurySigAddedEventChan app2 @
                 [\<lparr>jurySigAddedEvent.bbnPubKey = addJurySigRequest.bbnPubKey req,
                   jurySigAddedEvent.txHash = tx,
                   jurySigAddedEvent.successResponse =
                     addJurySigRequest.successResponse req\<rparr>]\<rparr>)))"

text \<open>
  One iteration of \<^verbatim>\<open>handleSentToBabylonLoop\<close>, with the case its \<^verbatim>\<open>select\<close> takes as an
  input; \<open>None\<close> when the channel of the case has nothing to receive.
\<close>

datatype babylonLoop_case =
    RecvAddFinalitySigRequest
  | RecvRegisterValidatorRequest
  | RecvCommitPubRandRequest
  | RecvAddJurySigRequest
  | RecvQuitBabylon

fun handleSentToBabylonLoop_step ::
  "BabylonController \<Rightarrow> babylonLoop_case \<Rightarrow> ValidatorApp \<Rightarrow> (status \<times> ValidatorApp) option" where
  "handleSentToBabylonLoop_step bc RecvAddFinalitySigRequest app =
     (case addFinalitySigRequestChan app of
        [] \<Rightarrow> None
      | req # q \<Rightarrow> Some (on_addFinalitySigRequest bc req (app\<lparr>addFinalitySigRequestChan := q\<rparr>)))"
| "handleSentToBabylonLoop_step bc RecvRegisterValidatorRequest app =
     (case registerValidatorRequestChan app of
        [] \<Rightarrow> None
      | req # q \<Rightarrow>
          Some (on_registerValidatorRequest bc req (app\<lparr>registerValidatorRequestChan := q\<rparr>)))"
| "handleSentToBabylonLoop_step bc RecvCommitPubRandRequest app =
     (case commitPubRandRequestChan app of
        [] \<Rightarrow> None
      | req # q \<Rightarrow> Some (on_commitPubRandRequest bc req (app\<lparr>commitPubRandRequestChan := q\<rparr>)))"
| "handleSentToBabylonLoop_step bc RecvAddJurySigRequest app =
     (case addJurySigRequestChan app of
        [] \<Rightarrow> None
      | req # q \<Rightarrow> Some (on_addJurySigRequest bc req (app\<lparr>addJurySigRequestChan := q\<rparr>)))"
| "handleSentToBabylonLoop_step bc RecvQuitBabylon app =
     (if quit app then Some (Returned, app) else None)"

text \<open>
  The requests of the serializer as one type, with what the properties below read from a
  request: the channel it is sent on, its reply channels, the chain call made for it, the
  message logged when the call fails, and the completion event of a call that returned
  the transaction hash \<open>tx\<close>.
\<close>

datatype request =
    AddFinalitySig addFinalitySigRequest
  | RegisterValidatorRequest registerValidatorRequest
  | CommitPubRand commitPubRandRequest
  | AddJurySig addJurySigRequest

fun on_request :: "BabylonController \<Rightarrow> request \<Rightarrow> ValidatorApp \<Rightarrow> status \<times> ValidatorApp" where
  "on_request bc (AddFinalitySig req) app = on_addFinalitySigRequest bc req app"
| "on_request bc (RegisterValidatorRequest req) app = on_registerValidatorRequest bc req app"
| "on_request bc (CommitPubRand req) app = on_commitPubRandRequest bc req app"
| "on_request bc (AddJurySig req) app = on_addJurySigRequest bc req app"

fun chan_of :: "request \<Rightarrow> babylonLoop_case" where
  "chan_of (AddFinalitySig req) = RecvAddFinalitySigRequest"
| "chan_of (RegisterValidatorRequest req) = RecvRegisterValidatorRequest"
| "chan_of (CommitPubRand req) = RecvCommitPubRandRequest"
| "chan_of (AddJurySig req) = RecvAddJurySigRequest"

fun errResponse_of :: "request \<Rightarrow> chan" where
  "errResponse_of (AddFinalitySig req) = addFinalitySigRequest.errResponse req"
| "errResponse_of (RegisterValidatorRequest req) = registerValidatorRequest.errResponse req"
| "errResponse_of (CommitPubRand req) = commitPubRandRequest.errResponse req"
| "errResponse_of (AddJurySig req) = addJurySigRequest.errResponse req"

fun successResponse_of :: "request \<Rightarrow> chan" where
  "successResponse_of (AddFinalitySig req) = addFinalitySigRequest.successResponse req"
| "successResponse_of (RegisterValidatorRequest req) = registerValidatorRequest.successResponse req"
| "successResponse_of (CommitPubRand req) = commitPubRandRequest.successResponse req"
| "successResponse_of (AddJurySig req) = addJurySigRequest.successResponse req"

fun call_of :: "request \<Rightarrow> chain_call" where
  "call_of (AddFinalitySig req) =
     SubmitFinalitySig (addFinalitySigRequest.valBtcPk req) (blockHeight req)
       (blockLastCommitHash req) (addFinalitySigRequest.sig req)"
| "call_of (RegisterValidatorRequest req) =
     RegisterValidator (registerValidatorRequest.bbnPubKey req) (btcPubKey req) (pop req)"
| "call_of (CommitPubRand req) =
     CommitPubRandList (commitPubRandRequest.valBtcPk req) (commitPubRandRequest.startingHeight req)
       (commitPubRandRequest.pubRandList req) (commitPubRandRequest.sig req)"
| "call_of (AddJurySig req) =
     SubmitJurySig (addJurySigRequest.valBtcPk req) (delBtcPk req) (addJurySigRequest.sig req)"

fun failure_message :: "request \<Rightarrow> string" where
  "failure_message (AddFinalitySig req) = ''failed to submit finality signature''"
| "failure_message (RegisterValidatorRequest req) = ''failed to register validator''"
| "failure_message (CommitPubRand req) = ''failed to commit public randomness''"
| "failure_message (AddJurySig req) = ''failed to submit Jury signature''"

fun success_message :: "request \<Rightarrow> bytes \<Rightarrow> msg" where
  "success_message (AddFinalitySig req) tx = addFinalitySigResponse tx"
| "success_message (RegisterValidatorRequest req) tx = registerValidatorResponse tx"
| "success_message (CommitPubRand req) tx = commitPubRandResponse tx"
| "success_message (AddJurySig req) tx = addJurySigResponse tx"

fun kind_of_call :: "chain_call \<Rightarrow> babylonLoop_case" where
  "kind_of_call (SubmitFinalitySig a b c d) = RecvAddFinalitySigRequest"
| "kind_of_call (RegisterValidator a b c) = RecvRegisterValidatorRequest"
| "kind_of_call (CommitPubRandList a b c d) = RecvCommitPubRandRequest"
| "kind_of_call (SubmitJurySig a b c) = RecvAddJurySigRequest"

text \<open>The requests waiting on the channel of a case, oldest first.\<close>

fun waiting :: "babylonLoop_case \<Rightarrow> ValidatorApp \<Rightarrow> request list" where
  "waiting RecvAddFinalitySigRequest app = map AddFinalitySig (addFinalitySigRequestChan app)"
| "waiting RecvRegisterValidatorRequest app =
     map RegisterValidatorRequest (registerValidatorRequestChan app)"
| "waiting RecvCommitPubRandRequest app = map CommitPubRand (commitPubRandRequestChan app)"
| "waiting RecvAddJurySigRequest app = map AddJurySig (addJurySigRequestChan app)"
| "waiting RecvQuitBabylon app = []"

text \<open>The completion events waiting for the event loop, channel by channel.\<close>

definition waiting_events :: "ValidatorApp \<Rightarrow> event list \<times> event list \<times> event list \<times> event list" where
  "waiting_events app =
     (map FinalitySigAdded (finalitySigAddedEventChan app),
      map ValidatorRegistered (validatorRegisteredEventChan app),
      map PubRandCommitted (pubRandCommittedEventChan app),
      map JurySigAdded (jurySigAddedEventChan app))"

text \<open>
  A caller hands a request over to the channel of its type: the request waits behind the
  requests handed over to that channel before it.
\<close>

fun submit :: "request \<Rightarrow> ValidatorApp \<Rightarrow> ValidatorApp" where
  "submit (AddFinalitySig req) app =
     app\<lparr>addFinalitySigRequestChan := addFinalitySigRequestChan app @ [req]\<rparr>"
| "submit (RegisterValidatorRequest req) app =
     app\<lparr>registerValidatorRequestChan := registerValidatorRequestChan app @ [req]\<rparr>"
| "submit (CommitPubRand req) app =
     app\<lparr>commitPubRandRequestChan := commitPubRandRequestChan app @ [req]\<rparr>"
| "submit (AddJurySig req) app =
     app\<lparr>addJurySigRequestChan := addJurySigRequestChan app @ [req]\<rparr>"

text \<open>
  An execution of the serializer among its callers: a caller submits a request, or the
  loop runs one iteration. A schedule that takes a case which is not ready, or runs the
  loop after it has returned, is not an execution (\<open>None\<close>).
\<close>

datatype action = Submit request | Serve babylonLoop_case

fun run ::
  "BabylonController \<Rightarrow> action list \<Rightarrow> status \<times> ValidatorApp \<Rightarrow> (status \<times> ValidatorApp) option" where
  "run bc [] sa = Some sa"
| "run bc (Submit r # as) (st, app) = run bc as (st, submit r app)"
| "run bc (Serve c # as) (st, app) =
     (if st = Continue then
        (case handleSentToBabylonLoop_step bc c app of
           None \<Rightarrow> None
         | Some sa \<Rightarrow> run bc as sa)
      else None)"

fun submitted :: "action list \<Rightarrow> request list" where
  "submitted [] = []"
| "submitted (Submit r # as) = r # submitted as"
| "submitted (Serve c # as) = submitted as"

fun served :: "action list \<Rightarrow> nat" where
  "served [] = 0"
| "served (Submit r # as) = served as"
| "served (Serve c # as) = (if c = RecvQuitBabylon then served as else Suc (served as))"

section \<open>The jury reactor\<close>

text \<open>
  One tick of \<^verbatim>\<open>jurySigSubmissionLoop\<close>. \<^verbatim>\<open>getPendingDelegationsForAll\<close> and
  \<^verbatim>\<open>AddJurySignature\<close> are not under src/: they are the parameters \<open>get\<close> and \<open>add\<close>, which
  act on the state \<open>'s\<close> of the rest of the application; \<open>pk\<close> reads the \<^verbatim>\<open>BtcPk\<close> of a
  delegation. The loop itself only logs.
\<close>

datatype log_entry = LogError string error "bytes option"

fun submit_jury_sigs ::
  "('d \<Rightarrow> 's \<Rightarrow> (error + 'r) \<times> 's) \<Rightarrow> ('d \<Rightarrow> bytes) \<Rightarrow> 'd list \<Rightarrow> 's \<times> log_entry list
     \<Rightarrow> 's \<times> log_entry list" where
  "submit_jury_sigs add pk [] (s, lg) = (s, lg)"
| "submit_jury_sigs add pk (d # ds) (s, lg) =
     (case add d s of
        (Inl e, s1) \<Rightarrow>
          submit_jury_sigs add pk ds
            (s1, lg @ [LogError ''failed to submit Jury sig to the Bitcoin delegation'' e (Some (pk d))])
      | (Inr r, s1) \<Rightarrow> submit_jury_sigs add pk ds (s1, lg))"

definition jurySigSubmissionLoop_tick ::
  "('s \<Rightarrow> (error + 'd list) \<times> 's) \<Rightarrow> ('d \<Rightarrow> 's \<Rightarrow> (error + 'r) \<times> 's) \<Rightarrow> ('d \<Rightarrow> bytes)
     \<Rightarrow> 's \<times> log_entry list \<Rightarrow> status \<times> 's \<times> log_entry list" where
  "jurySigSubmissionLoop_tick get add pk sl =
     (case get (fst sl) of
        (Inl e, s1) \<Rightarrow> (Continue, s1, snd sl @ [LogError ''failed to get pending delegations'' e None])
      | (Inr dels, s1) \<Rightarrow> (Continue, submit_jury_sigs add pk dels (s1, snd sl)))"

text \<open>The loop over its ticks, until quit (the end of the schedule).\<close>

fun jurySigSubmissionLoop ::
  "('s \<Rightarrow> (error + 'd list) \<times> 's) \<Rightarrow> ('d \<Rightarrow> 's \<Rightarrow> (error + 'r) \<times> 's) \<Rightarrow> ('d \<Rightarrow> bytes)
     \<Rightarrow> nat \<Rightarrow> 's \<times> log_entry list \<Rightarrow> status \<times> 's \<times> log_entry list" where
  "jurySigSubmissionLoop get add pk 0 sl = (Returned, sl)"
| "jurySigSubmissionLoop get add pk (Suc n) sl =
     (case jurySigSubmissionLoop_tick get add pk sl of
        (Continue, sl1) \<Rightarrow> jurySigSubmissionLoop get add pk n sl1
      | (st, sl1) \<Rightarrow> (st, sl1))"

section \<open>Reading a trace\<close>

text \<open>
  The messages sent on reply channels in a trace, in order; the effects a step has added
  to the trace; whether some call of the store in a trace has failed; and the successful
  save of the pair of index \<open>j\<close>, when \<open>prs\<close> are the secret values from index \<open>i\<close> on.
\<close>

fun sends :: "effect list \<Rightarrow> (chan \<times> msg) list" where
  "sends [] = []"
| "sends (Send c m # es) = (c, m) # sends es"
| "sends (Log l s e # es) = sends es"
| "sends (Store c b # es) = sends es"

definition new_effects :: "ValidatorApp \<Rightarrow> ValidatorApp \<Rightarrow> effect list" where
  "new_effects app app1 = drop (length (trace app)) (trace app1)"

definition failed_write :: "effect list \<Rightarrow> bool" where
  "failed_write es = (\<exists>c. Store c False \<in> set es)"

definition pair_call :: "bytes \<Rightarrow> uint64 \<Rightarrow> bytes list \<Rightarrow> bytes list \<Rightarrow> nat \<Rightarrow> nat \<Rightarrow> effect" where
  "pair_call k start pub prs i j =
     Store (CallSaveRandPair k (start + word_of_nat j) \<lparr>SecRand = prs ! (j - i), PubRand = pub ! j\<rparr>) True"

text \<open>
  The validator a completion event names, and the reply its handler sends when it ends
  well: the response with the transaction hash, on the reply channel the event carries.
\<close>

fun event_key :: "event \<Rightarrow> bytes" where
  "event_key (FinalitySigAdded ev) = finalitySigAddedEvent.bbnPubKey ev"
| "event_key (ValidatorRegistered ev) = validatorRegisteredEvent.bbnPubKey ev"
| "event_key (PubRandCommitted ev) = pubRandCommittedEvent.bbnPubKey ev"
| "event_key (JurySigAdded ev) = jurySigAddedEvent.bbnPubKey ev"

fun reply_of :: "event \<Rightarrow> chan \<times> msg" where
  "reply_of (FinalitySigAdded ev) =
     (finalitySigAddedEvent.successResponse ev, addFinalitySigResponse (finalitySigAddedEvent.txHash ev))"
| "reply_of (ValidatorRegistered ev) =
     (validatorRegisteredEvent.successResponse ev,
      registerValidatorResponse (validatorRegisteredEvent.txHash ev))"
| "reply_of (PubRandCommitted ev) =
     (pubRandCommittedEvent.successResponse ev, commitPubRandResponse (pubRandCommittedEvent.txHash ev))"
| "reply_of (JurySigAdded ev) =
     (jurySigAddedEvent.successResponse ev, addJurySigResponse (jurySigAddedEvent.txHash ev))"

text \<open>
  The completion event the serializer emits for a request whose chain call returned \<open>tx\<close>,
  the events a step has added to the event channels, and the application after the
  \<^verbatim>\<open>select\<close> has received the oldest request of a case.
\<close>

fun completion :: "request \<Rightarrow> bytes \<Rightarrow> event" where
  "completion (AddFinalitySig req) tx =
     FinalitySigAdded \<lparr>finalitySigAddedEvent.bbnPubKey = addFinalitySigRequest.bbnPubKey req,
       height = blockHeight req, finalitySigAddedEvent.txHash = tx,
       finalitySigAddedEvent.successResponse = addFinalitySigRequest.successResponse req\<rparr>"
| "completion (RegisterValidatorRequest req) tx =
     ValidatorRegistered \<lparr>validatorRegisteredEvent.bbnPubKey = registerValidatorRequest.bbnPubKey req,
       validatorRegisteredEvent.txHash = tx,
       validatorRegisteredEvent.successResponse = registerValidatorRequest.successResponse req\<rparr>"
| "completion (CommitPubRand req) tx =
     PubRandCommitted \<lparr>pubRandCommittedEvent.startingHeight = commitPubRandRequest.startingHeight req,
       pubRandCommittedEvent.bbnPubKey = commitPubRandRequest.bbnPubKey req,
       pubRandCommittedEvent.valBtcPk = commitPubRandRequest.valBtcPk req,
       pubRandCommittedEvent.privRandList = commitPubRandRequest.privRandList req,
       pubRandCommittedEvent.pubRandList = commitPubRandRequest.pubRandList req,
       pubRandCommittedEvent.txHash = tx,
       pubRandCommittedEvent.successResponse = commitPubRandRequest.successResponse req\<rparr>"
| "completion (AddJurySig req) tx =
     JurySigAdded \<lparr>jurySigAddedEvent.bbnPubKey = addJurySigRequest.bbnPubKey req,
       jurySigAddedEvent.txHash = tx,
       jurySigAddedEvent.successResponse = addJurySigRequest.successResponse req\<rparr>"

definition emitted :: "ValidatorApp \<Rightarrow> ValidatorApp \<Rightarrow> event list" where
  "emitted app app1 =
     map FinalitySigAdded
       (drop (length (finalitySigAddedEventChan app)) (finalitySigAddedEventChan app1))
     @ map ValidatorRegistered
         (drop (length (validatorRegisteredEventChan app)) (validatorRegisteredEventChan app1))
     @ map PubRandCommitted
         (drop (length (pubRandCommittedEventChan app)) (pubRandCommittedEventChan app1))
     @ map JurySigAdded (drop (length (jurySigAddedEventChan app)) (jurySigAddedEventChan app1))"

fun receive :: "babylonLoop_case \<Rightarrow> ValidatorApp \<Rightarrow> ValidatorApp" where
  "receive RecvAddFinalitySigRequest app =
     app\<lparr>addFinalitySigRequestChan := tl (addFinalitySigRequestChan app)\<rparr>"
| "receive RecvRegisterValidatorRequest app =
     app\<lparr>registerValidatorRequestChan := tl (registerValidatorRequestChan app)\<rparr>"
| "receive RecvCommitPubRandRequest app =
     app\<lparr>commitPubRandRequestChan := tl (commitPubRandRequestChan app)\<rparr>"
| "receive RecvAddJurySigRequest app =
     app\<lparr>addJurySigRequestChan := tl (addJurySigRequestChan app)\<rparr>"
| "receive RecvQuitBabylon app = app"

text \<open>
  The replies to a request over both loops: the serializer handles the request in the
  state \<open>app\<close>; when it has emitted a completion event, the event loop handles that event in
  the state \<open>app2\<close> it has reached by then. The result is how the last of the two ended and
  what has been sent on reply channels, in order.
\<close>

definition replies ::
  "BabylonController \<Rightarrow> request \<Rightarrow> ValidatorApp \<Rightarrow> ValidatorApp \<Rightarrow> status \<times> (chan \<times> msg) list" where
  "replies bc r app app2 =
     (case on_request bc r app of
        (st, app1) \<Rightarrow>
          (case emitted app app1 of
             [] \<Rightarrow> (st, sends (new_effects app app1))
           | ev # evs \<Rightarrow>
               (case on_event ev app2 of
                  (st2, app3) \<Rightarrow>
                    (st2, sends (new_effects app app1) @ sends (new_effects app2 app3)))))"

text \<open>
  The store is well formed when every validator is kept under its own identity, which is
  where \<^verbatim>\<open>SaveValidator\<close> puts it. \<open>votes_kept s t\<close>: every validator of \<open>s\<close> is still in \<open>t\<close>,
  with a \<open>LastVotedHeight\<close> at least as high. \<open>create_keeps hcv\<close>: the create handler, which
  is not under src/, keeps both.
\<close>

definition store_wf :: "ValidatorStore \<Rightarrow> bool" where
  "store_wf s = (\<forall>k v. validators s k = Some v \<longrightarrow> BabylonPk v = k)"

definition votes_kept :: "ValidatorStore \<Rightarrow> ValidatorStore \<Rightarrow> bool" where
  "votes_kept s t =
     (\<forall>k v. validators s k = Some v \<longrightarrow>
        (\<exists>w. validators t k = Some w \<and> LastVotedHeight v \<le> LastVotedHeight w))"

definition create_keeps :: "create_handler \<Rightarrow> bool" where
  "create_keeps hcv =
     (\<forall>req s. store_wf s \<longrightarrow> store_wf (snd (hcv req s)) \<and> votes_kept s (snd (hcv req s)))"

section \<open>Blocking sends\<close>

text \<open>
  A send \<^verbatim>\<open>c <- m\<close> completes only when a receiver or a free buffer slot is ready on the
  channel. The reply channels are made, and received from, by the callers, which are not
  under src/: which of them are ready is the parameter \<open>ready\<close>. In every case of both loops
  the send on a reply channel is the last statement of the iteration, so an iteration that
  blocks there has done all the rest: \<open>blocked_at\<close> finds the first send of a trace that
  cannot complete, \<open>delivered\<close> keeps what was done before it, and \<open>await_sends\<close> turns the
  result of an iteration into its outcome, completed or blocked at a send. The event
  channels hold any number of events.
\<close>

fun blocked_at :: "(chan \<Rightarrow> bool) \<Rightarrow> effect list \<Rightarrow> (chan \<times> msg) option" where
  "blocked_at ready [] = None"
| "blocked_at ready (Send c m # es) = (if ready c then blocked_at ready es else Some (c, m))"
| "blocked_at ready (Log l s e # es) = blocked_at ready es"
| "blocked_at ready (Store c b # es) = blocked_at ready es"

fun delivered :: "(chan \<Rightarrow> bool) \<Rightarrow> effect list \<Rightarrow> effect list" where
  "delivered ready [] = []"
| "delivered ready (Send c m # es) = (if ready c then Send c m # delivered ready es else [])"
| "delivered ready (Log l s e # es) = Log l s e # delivered ready es"
| "delivered ready (Store c b # es) = Store c b # delivered ready es"

datatype outcome = Completed status ValidatorApp | Blocked chan msg ValidatorApp

fun app_of :: "outcome \<Rightarrow> ValidatorApp" where
  "app_of (Completed st app) = app"
| "app_of (Blocked c m app) = app"

definition await_sends :: "(chan \<Rightarrow> bool) \<Rightarrow> ValidatorApp \<Rightarrow> status \<times> ValidatorApp \<Rightarrow> outcome" where
  "await_sends ready app sa =
     (case blocked_at ready (new_effects app (snd sa)) of
        None \<Rightarrow> Completed (fst sa) (snd sa)
      | Some (c, m) \<Rightarrow>
          Blocked c m ((snd sa)\<lparr>trace := trace app @ delivered ready (new_effects app (snd sa))\<rparr>))"

text \<open>
  One iteration of the serializer under a readiness of the reply channels, and its
  executions among its callers: a blocked loop runs no further iteration.
\<close>

definition handleSentToBabylonLoop_await ::
  "(chan \<Rightarrow> bool) \<Rightarrow> BabylonController \<Rightarrow> babylonLoop_case \<Rightarrow> ValidatorApp \<Rightarrow> outcome option" where
  "handleSentToBabylonLoop_await ready bc c app =
     map_option (await_sends ready app) (handleSentToBabylonLoop_step bc c app)"

fun run_await ::
  "(chan \<Rightarrow> bool) \<Rightarrow> BabylonController \<Rightarrow> action list \<Rightarrow> outcome \<Rightarrow> outcome option" where
  "run_await ready bc [] out = Some out"
| "run_await ready bc (Submit r # as) (Completed st app) =
     run_await ready bc as (Completed st (submit r app))"
| "run_await ready bc (Submit r # as) (Blocked c m app) =
     run_await ready bc as (Blocked c m (submit r app))"
| "run_await ready bc (Serve c # as) (Completed st app) =
     (if st = Continue then
        (case handleSentToBabylonLoop_await ready bc c app of
           None \<Rightarrow> None
         | Some out \<Rightarrow> run_await ready bc as out)
      else None)"
| "run_await ready bc (Serve c # as) (Blocked ch m app) = None"

section \<open>Scenarios\<close>

text \<open>
  A store with one validator \<open>pk1\<close> that has neither voted nor committed, in an application
  where nothing waits and nothing has happened; completion events for \<open>pk1\<close>; a create
  handler that refuses.
\<close>

definition pk1 :: bytes where
  "pk1 = [1]"

definition validator0 :: StoreValidator where
  "validator0 = \<lparr>BabylonPk = pk1, BtcPk = [2], Status = CREATED,
                  LastVotedHeight = 0, LastCommittedHeight = 0\<rparr>"

definition store0 :: ValidatorStore where
  "store0 = \<lparr>validators = [pk1 \<mapsto> validator0], randPairs = Map.empty, faults = []\<rparr>"

definition app0 :: ValidatorApp where
  "app0 = \<lparr>vs = store0, calls = [], quit = False,
            createValidatorRequestChan = [], addFinalitySigRequestChan = [],
            registerValidatorRequestChan = [], commitPubRandRequestChan = [],
            addJurySigRequestChan = [], finalitySigAddedEventChan = [],
            validatorRegisteredEventChan = [], pubRandCommittedEventChan = [],
            jurySigAddedEventChan = [], trace = []\<rparr>"

definition commit_ev :: "uint64 \<Rightarrow> bytes list \<Rightarrow> bytes list \<Rightarrow> pubRandCommittedEvent" where
  "commit_ev h prs pub =
     \<lparr>pubRandCommittedEvent.startingHeight = h, pubRandCommittedEvent.bbnPubKey = pk1,
      pubRandCommittedEvent.valBtcPk = [2], pubRandCommittedEvent.privRandList = prs,
      pubRandCommittedEvent.pubRandList = pub, pubRandCommittedEvent.txHash = [9],
      pubRandCommittedEvent.successResponse = 7\<rparr>"

definition register_ev :: "bytes \<Rightarrow> validatorRegisteredEvent" where
  "register_ev k = \<lparr>validatorRegisteredEvent.bbnPubKey = k,
       validatorRegisteredEvent.txHash = [9], validatorRegisteredEvent.successResponse = 7\<rparr>"

definition vote_ev :: "uint64 \<Rightarrow> finalitySigAddedEvent" where
  "vote_ev h = \<lparr>finalitySigAddedEvent.bbnPubKey = pk1, height = h,
       finalitySigAddedEvent.txHash = [9], finalitySigAddedEvent.successResponse = 11\<rparr>"

definition app_votes :: ValidatorApp where
  "app_votes = app0\<lparr>finalitySigAddedEventChan := [vote_ev 101, vote_ev 100]\<rparr>"

definition no_create :: create_handler where
  "no_create req s = (Inl (Err ''invalid''), s)"

text \<open>
  Two finality-signature requests and a jury-signature request, a chain client that
  accepts every call and one that refuses jury signatures, and two schedules of callers
  and serializer.
\<close>

definition finality_req :: addFinalitySigRequest where
  "finality_req = \<lparr>addFinalitySigRequest.bbnPubKey = pk1, addFinalitySigRequest.valBtcPk = [2],
      blockHeight = 101, blockLastCommitHash = [3], addFinalitySigRequest.sig = [4],
      addFinalitySigRequest.errResponse = 10, addFinalitySigRequest.successResponse = 11\<rparr>"

definition finality_req2 :: addFinalitySigRequest where
  "finality_req2 = \<lparr>addFinalitySigRequest.bbnPubKey = pk1, addFinalitySigRequest.valBtcPk = [2],
      blockHeight = 102, blockLastCommitHash = [5], addFinalitySigRequest.sig = [7],
      addFinalitySigRequest.errResponse = 12, addFinalitySigRequest.successResponse = 13\<rparr>"

definition jury_req :: addJurySigRequest where
  "jury_req = \<lparr>addJurySigRequest.bbnPubKey = pk1, addJurySigRequest.valBtcPk = [2],
      delBtcPk = [6], addJurySigRequest.sig = [8],
      addJurySigRequest.errResponse = 20, addJurySigRequest.successResponse = 21\<rparr>"

definition bc_ok :: BabylonController where
  "bc_ok hist c = Inr [9]"

definition bc_no_jury :: BabylonController where
  "bc_no_jury hist c = (if kind_of_call c = RecvAddJurySigRequest then Inl (Err ''rpc'') else Inr [9])"

definition schedule1 :: "action list" where
  "schedule1 = [Submit (AddFinalitySig finality_req), Submit (AddJurySig jury_req),
                Serve RecvAddJurySigRequest, Serve RecvAddFinalitySigRequest]"

definition schedule2 :: "action list" where
  "schedule2 = [Submit (AddFinalitySig finality_req), Submit (AddJurySig jury_req),
                Submit (AddFinalitySig finality_req2),
                Serve RecvAddJurySigRequest, Serve RecvAddFinalitySigRequest]"

text \<open>
  Three pending delegations, of which the second cannot be signed; the state of the rest
  of the application is the list of the delegations \<^verbatim>\<open>AddJurySignature\<close> was called on.
\<close>

definition get_three :: "nat list \<Rightarrow> (error + nat list) \<times> nat list" where
  "get_three s = (Inr [1, 2, 3], s)"

definition get_down :: "nat list \<Rightarrow> (error + nat list) \<times> nat list" where
  "get_down s = (Inl (Err ''rpc''), s)"

definition add_not_2 :: "nat \<Rightarrow> nat list \<Rightarrow> (error + bytes) \<times> nat list" where
  "add_not_2 d s = (if d = 2 then Inl (Err ''sign'') else Inr [9], s @ [d])"

definition pk_of :: "nat \<Rightarrow> bytes" where
  "pk_of d = [word_of_nat d]"

text \<open>
  Every caller receives its reply, or the caller behind channel 20 does not; the jury and
  the finality request of the scenario, both waiting.
\<close>

definition all_ready :: "chan \<Rightarrow> bool" where
  "all_ready c = True"

definition deaf_20 :: "chan \<Rightarrow> bool" where
  "deaf_20 c = (c \<noteq> 20)"

definition app_two :: ValidatorApp where
  "app_two = submit (AddFinalitySig finality_req) (submit (AddJurySig jury_req) app0)"

section \<open>Properties of the event loop\<close>

lemma sends_append: "sends (xs @ ys) = sends xs @ sends ys"
  by (induction xs rule: sends.induct) simp_all

lemma durable_write_ok:
  assumes "True \<notin> set (faults s)" and "\<And>t. faults (upd t) = faults t"
  shows "fst (durable_write s upd) = None \<and> True \<notin> set (faults (snd (durable_write s upd)))"
  using assms by (cases "faults s") (auto simp: durable_write_def)

lemma exec_store_ok:
  assumes "True \<notin> set (faults s)"
  shows "fst (exec_store c s) = None \<and> True \<notin> set (faults (snd (exec_store c s)))"
proof (cases c)
  case (CallSaveRandPair k h p)
  show ?thesis
    unfolding CallSaveRandPair exec_store.simps SaveRandPair_def
    by (rule durable_write_ok [OF assms]) (simp split: option.split)
qed (use assms in \<open>simp_all add: SetValidatorLastVotedHeight_def SetValidatorStatus_def SaveValidator_def durable_write_ok\<close>)

lemma call_vs_ok:
  assumes "True \<notin> set (faults (vs app))"
  shows "\<exists>app1. call_vs c app = (None, app1) \<and> trace app1 = trace app @ [Store c True]
           \<and> True \<notin> set (faults (vs app1))"
  using exec_store_ok [OF assms, of c]
  by (cases "exec_store c (vs app)") (simp add: call_vs_def)

lemma save_rand_pairs_ok:
  assumes "True \<notin> set (faults (vs app))" and "i \<le> length pub"
  shows "\<exists>app1. save_rand_pairs k start pub i prs app =
            (if i + length prs \<le> length pub then Continue else Panicked, app1)
          \<and> trace app1 = trace app @ map (pair_call k start pub prs i) [i..<min (i + length prs) (length pub)]
          \<and> True \<notin> set (faults (vs app1))"
  using assms
proof (induction prs arbitrary: i app)
  case Nil
  then show ?case by simp
next
  case (Cons pr prs)
  show ?case
  proof (cases "i < length pub")
    case False
    with Cons.prems show ?thesis by simp
  next
    case True
    obtain app1 where a1: "call_vs (CallSaveRandPair k (start + word_of_nat i)
                         \<lparr>SecRand = pr, PubRand = pub ! i\<rparr>) app = (None, app1)"
      and t1: "trace app1 = trace app @ [Store (CallSaveRandPair k (start + word_of_nat i)
                         \<lparr>SecRand = pr, PubRand = pub ! i\<rparr>) True]"
      and f1: "True \<notin> set (faults (vs app1))"
      using call_vs_ok [OF Cons.prems(1)] by blast
    from True have le: "Suc i \<le> length pub" by simp
    obtain app2 where a2: "save_rand_pairs k start pub (Suc i) prs app1 =
            (if Suc i + length prs \<le> length pub then Continue else Panicked, app2)"
      and t2: "trace app2 = trace app1 @ map (pair_call k start pub prs (Suc i)) [Suc i..<min (Suc i + length prs) (length pub)]"
      and f2: "True \<notin> set (faults (vs app2))"
      using Cons.IH [OF f1 le] by blast
    have m: "map (pair_call k start pub prs (Suc i)) [Suc i..<min (Suc i + length prs) (length pub)]
           = map (pair_call k start pub (pr # prs) i) [Suc i..<min (Suc i + length prs) (length pub)]"
      by (rule map_cong) (auto simp: pair_call_def Suc_diff_le)
    have u: "[i..<min (i + length (pr # prs)) (length pub)] = i # [Suc i..<min (Suc i + length prs) (length pub)]"
      using True by (simp add: upt_conv_Cons)
    show ?thesis
      using True a1 a2 t1 t2 f2 m u by (simp add: pair_call_def)
  qed
qed

lemma heights_increase:
  fixes start :: uint64
  assumes "unat start + n \<le> 2 ^ 64" and "i < j" and "j < n"
  shows "start + word_of_nat i < start + word_of_nat j"
proof -
  have "unat (start + word_of_nat i) = unat start + i"
    using assms by (simp add: unat_word_ariths unat_of_nat)
  moreover have "unat (start + word_of_nat j) = unat start + j"
    using assms by (simp add: unat_word_ariths unat_of_nat)
  ultimately show ?thesis using assms by (simp add: word_less_nat_alt)
qed

lemma on_pubRandCommitted_ok:
  assumes g: "GetValidator (vs app) (pubRandCommittedEvent.bbnPubKey ev) = Inr val"
    and f: "True \<notin> set (faults (vs app))"
  shows "\<exists>app1.
     on_pubRandCommitted ev app =
       (if length (pubRandCommittedEvent.privRandList ev) \<le> length (pubRandCommittedEvent.pubRandList ev)
        then Continue else Panicked, app1)
   \<and> trace app1 = trace app @
        Store (CallSaveValidator (val\<lparr>LastCommittedHeight :=
                 pubRandCommittedEvent.startingHeight ev
                 + word_of_int (int (length (pubRandCommittedEvent.pubRandList ev)) - 1)\<rparr>)) True
        # map (pair_call (pubRandCommittedEvent.bbnPubKey ev) (pubRandCommittedEvent.startingHeight ev)
                 (pubRandCommittedEvent.pubRandList ev) (pubRandCommittedEvent.privRandList ev) 0)
              [0..<min (length (pubRandCommittedEvent.privRandList ev))
                       (length (pubRandCommittedEvent.pubRandList ev))]
        @ (if length (pubRandCommittedEvent.privRandList ev) \<le> length (pubRandCommittedEvent.pubRandList ev)
           then [Send (pubRandCommittedEvent.successResponse ev)
                   (commitPubRandResponse (pubRandCommittedEvent.txHash ev))]
           else [])"
proof -
  let ?val1 = "val\<lparr>LastCommittedHeight :=
                 pubRandCommittedEvent.startingHeight ev
                 + word_of_int (int (length (pubRandCommittedEvent.pubRandList ev)) - 1)\<rparr>"
  obtain app1 where a1: "call_vs (CallSaveValidator ?val1) app = (None, app1)"
    and t1: "trace app1 = trace app @ [Store (CallSaveValidator ?val1) True]"
    and f1: "True \<notin> set (faults (vs app1))"
    using call_vs_ok [OF f] by blast
  obtain app2 where a2: "save_rand_pairs (pubRandCommittedEvent.bbnPubKey ev)
        (pubRandCommittedEvent.startingHeight ev) (pubRandCommittedEvent.pubRandList ev) 0
        (pubRandCommittedEvent.privRandList ev) app1 =
      (if 0 + length (pubRandCommittedEvent.privRandList ev) \<le> length (pubRandCommittedEvent.pubRandList ev)
       then Continue else Panicked, app2)"
    and t2: "trace app2 = trace app1 @
        map (pair_call (pubRandCommittedEvent.bbnPubKey ev) (pubRandCommittedEvent.startingHeight ev)
                 (pubRandCommittedEvent.pubRandList ev) (pubRandCommittedEvent.privRandList ev) 0)
              [0..<min (0 + length (pubRandCommittedEvent.privRandList ev))
                       (length (pubRandCommittedEvent.pubRandList ev))]"
    using save_rand_pairs_ok [OF f1, of 0] by blast
  show ?thesis
    using g a1 a2 t1 t2 by (simp add: on_pubRandCommitted_def Let_def send_def)
qed

text \<open>
  Claim C10. The handler reads the public list at every index of the secret list. It does
  not panic when the secret list is no longer than the public list. When the secret list
  is longer, the validator exists and the writes succeed, nothing stops it earlier: it
  saves the validator and one pair per public value, and panics at the first index past
  the public list, without a reply.
\<close>

theorem pubRandCommitted_index_range:
  "(length (pubRandCommittedEvent.privRandList ev) \<le> length (pubRandCommittedEvent.pubRandList ev)
      \<longrightarrow> fst (on_pubRandCommitted ev app) \<noteq> Panicked)
   \<and> (GetValidator (vs app) (pubRandCommittedEvent.bbnPubKey ev) = Inr val
       \<and> True \<notin> set (faults (vs app))
       \<and> length (pubRandCommittedEvent.pubRandList ev) < length (pubRandCommittedEvent.privRandList ev)
      \<longrightarrow> fst (on_pubRandCommitted ev app) = Panicked
        \<and> trace (snd (on_pubRandCommitted ev app)) = trace app @
            Store (CallSaveValidator (val\<lparr>LastCommittedHeight :=
                 pubRandCommittedEvent.startingHeight ev
                 + word_of_nat (length (pubRandCommittedEvent.pubRandList ev)) - 1\<rparr>)) True
            # map (\<lambda>i. Store (CallSaveRandPair (pubRandCommittedEvent.bbnPubKey ev)
                           (pubRandCommittedEvent.startingHeight ev + word_of_nat i)
                           \<lparr>SecRand = pubRandCommittedEvent.privRandList ev ! i,
                            PubRand = pubRandCommittedEvent.pubRandList ev ! i\<rparr>) True)
                [0..<length (pubRandCommittedEvent.pubRandList ev)])"
proof -
  have p: "pair_call k st pub prs 0 = (\<lambda>i. Store (CallSaveRandPair k (st + word_of_nat i)
                           \<lparr>SecRand = prs ! i, PubRand = pub ! i\<rparr>) True)" for k st pub prs
    by (rule ext) (simp add: pair_call_def)
  have a: "fst (save_rand_pairs k st pub i prs a) \<noteq> Panicked" if "i + length prs \<le> length pub"
    for k st pub i prs a
    using that
  proof (induction prs arbitrary: i a)
    case Nil
    then show ?case by simp
  next
    case (Cons pr prs)
    then show ?case
      by (auto simp: Fatal_def split: prod.split option.split)
  qed
  have n: "fst (on_pubRandCommitted ev app) \<noteq> Panicked"
    if "length (pubRandCommittedEvent.privRandList ev) \<le> length (pubRandCommittedEvent.pubRandList ev)"
  proof -
    have q: "save_rand_pairs k st (pubRandCommittedEvent.pubRandList ev) 0
               (pubRandCommittedEvent.privRandList ev) x \<noteq> (Panicked, z)" for k st x z
      using that a [of 0 "pubRandCommittedEvent.privRandList ev" "pubRandCommittedEvent.pubRandList ev" k st x]
      by auto
    show ?thesis
      by (auto simp: on_pubRandCommitted_def Fatal_def Let_def q
               split: sum.split prod.split option.split status.split)
  qed
  have y: "fst (on_pubRandCommitted ev app) = Panicked
        \<and> trace (snd (on_pubRandCommitted ev app)) = trace app @
            Store (CallSaveValidator (val\<lparr>LastCommittedHeight :=
                 pubRandCommittedEvent.startingHeight ev
                 + word_of_nat (length (pubRandCommittedEvent.pubRandList ev)) - 1\<rparr>)) True
            # map (\<lambda>i. Store (CallSaveRandPair (pubRandCommittedEvent.bbnPubKey ev)
                           (pubRandCommittedEvent.startingHeight ev + word_of_nat i)
                           \<lparr>SecRand = pubRandCommittedEvent.privRandList ev ! i,
                            PubRand = pubRandCommittedEvent.pubRandList ev ! i\<rparr>) True)
                [0..<length (pubRandCommittedEvent.pubRandList ev)]"
    if "GetValidator (vs app) (pubRandCommittedEvent.bbnPubKey ev) = Inr val"
      and "True \<notin> set (faults (vs app))"
      and "length (pubRandCommittedEvent.pubRandList ev) < length (pubRandCommittedEvent.privRandList ev)"
    using on_pubRandCommitted_ok [OF that(1) that(2)] that(3)
    by (auto simp: p add.commute)
  show ?thesis using n y by blast
qed

text \<open>One secret value for two public ones, and two secret values for one public one.\<close>

theorem pubRandCommitted_index_range_witness:
  "length (pubRandCommittedEvent.privRandList (commit_ev 100 [[11]] [[21], [22]]))
     \<le> length (pubRandCommittedEvent.pubRandList (commit_ev 100 [[11]] [[21], [22]]))
   \<and> fst (on_pubRandCommitted (commit_ev 100 [[11]] [[21], [22]]) app0) \<noteq> Panicked
   \<and> GetValidator (vs app0) (pubRandCommittedEvent.bbnPubKey (commit_ev 100 [[11], [12]] [[21]]))
       = Inr validator0
   \<and> True \<notin> set (faults (vs app0))
   \<and> length (pubRandCommittedEvent.pubRandList (commit_ev 100 [[11], [12]] [[21]]))
       < length (pubRandCommittedEvent.privRandList (commit_ev 100 [[11], [12]] [[21]]))
   \<and> fst (on_pubRandCommitted (commit_ev 100 [[11], [12]] [[21]]) app0) = Panicked
   \<and> trace (snd (on_pubRandCommitted (commit_ev 100 [[11], [12]] [[21]]) app0)) =
       [Store (CallSaveValidator (validator0\<lparr>LastCommittedHeight := 100\<rparr>)) True,
        Store (CallSaveRandPair pk1 100 \<lparr>SecRand = [11], PubRand = [21]\<rparr>) True]"
proof -
  have g: "GetValidator (vs app0) (pubRandCommittedEvent.bbnPubKey (commit_ev 100 [[11], [12]] [[21]]))
       = Inr validator0"
    by (simp add: GetValidator_def app0_def store0_def commit_ev_def)
  have f: "True \<notin> set (faults (vs app0))"
    by (simp add: app0_def store0_def)
  show ?thesis
    using pubRandCommitted_index_range [of "commit_ev 100 [[11]] [[21], [22]]" app0 validator0]
      pubRandCommitted_index_range [of "commit_ev 100 [[11], [12]] [[21]]" app0 validator0] g f
    by (simp add: commit_ev_def app0_def)
qed

lemma new_effects_append: "trace app1 = trace app @ es \<Longrightarrow> new_effects app app1 = es"
  by (simp add: new_effects_def)

lemma call_vs_trace:
  "call_vs c app = (e, app1) \<Longrightarrow> trace app1 = trace app @ [Store c (e = None)]"
  by (auto simp: call_vs_def split: prod.splits)

lemma save_rand_pairs_trace:
  "\<exists>es. trace (snd (save_rand_pairs k start pub i prs app)) = trace app @ es
      \<and> sends es = []
      \<and> (failed_write es \<longrightarrow> fst (save_rand_pairs k start pub i prs app) = Exited)"
proof (induction prs arbitrary: i app)
  case Nil
  show ?case by (simp add: failed_write_def)
next
  case (Cons pr prs)
  show ?case
  proof (cases "i < length pub")
    case False
    then show ?thesis by (simp add: failed_write_def)
  next
    case True
    let ?c = "CallSaveRandPair k (start + word_of_nat i) \<lparr>SecRand = pr, PubRand = pub ! i\<rparr>"
    obtain e app1 where c: "call_vs ?c app = (e, app1)" by (cases "call_vs ?c app")
    note t = call_vs_trace [OF c]
    show ?thesis
    proof (cases e)
      case (Some x)
      with True c t show ?thesis
        by (simp add: Fatal_def logger_def failed_write_def)
    next
      case None
      obtain es where es: "trace (snd (save_rand_pairs k start pub (Suc i) prs app1)) = trace app1 @ es"
        "sends es = []"
        "failed_write es \<longrightarrow> fst (save_rand_pairs k start pub (Suc i) prs app1) = Exited"
        using Cons.IH [of "Suc i" app1] by blast
      have "trace (snd (save_rand_pairs k start pub i (pr # prs) app)) = trace app @ (Store ?c True # es)"
        using True c None t es(1) by simp
      moreover have "sends (Store ?c True # es) = []" using es(2) by simp
      moreover have "failed_write (Store ?c True # es) \<longrightarrow>
          fst (save_rand_pairs k start pub i (pr # prs) app) = Exited"
        using True c None es(3) by (simp add: failed_write_def)
      ultimately show ?thesis by blast
    qed
  qed
qed

lemma on_event_effects:
  "\<exists>es. trace (snd (on_event ev app)) = trace app @ es
      \<and> sends es = (if fst (on_event ev app) = Continue then [reply_of ev] else [])
      \<and> (failed_write es \<longrightarrow> fst (on_event ev app) = Exited)
      \<and> ((\<forall>j. ev \<noteq> JurySigAdded j) \<longrightarrow> (\<forall>e. GetValidator (vs app) (event_key ev) = Inl e
            \<longrightarrow> fst (on_event ev app) = Exited))"
proof (cases ev)
  case (FinalitySigAdded x)
  show ?thesis
  proof (cases "GetValidator (vs app) (finalitySigAddedEvent.bbnPubKey x)")
    case (Inl a)
    with FinalitySigAdded show ?thesis
      by (simp add: on_finalitySigAdded_def Fatal_def logger_def failed_write_def)
  next
    case (Inr val)
    obtain e app1 where c: "call_vs (CallSetValidatorLastVotedHeight val (height x)) app = (e, app1)"
      by (cases "call_vs (CallSetValidatorLastVotedHeight val (height x)) app")
    note t = call_vs_trace [OF c]
    show ?thesis using FinalitySigAdded Inr c t
      by (cases e) (simp_all add: on_finalitySigAdded_def Fatal_def logger_def send_def failed_write_def)
  qed
next
  case (ValidatorRegistered x)
  show ?thesis
  proof (cases "GetValidator (vs app) (validatorRegisteredEvent.bbnPubKey x)")
    case (Inl a)
    with ValidatorRegistered show ?thesis
      by (simp add: on_validatorRegistered_def Fatal_def logger_def failed_write_def)
  next
    case (Inr val)
    obtain e app1 where c: "call_vs (CallSetValidatorStatus val REGISTERED) app = (e, app1)"
      by (cases "call_vs (CallSetValidatorStatus val REGISTERED) app")
    note t = call_vs_trace [OF c]
    show ?thesis using ValidatorRegistered Inr c t
      by (cases e) (simp_all add: on_validatorRegistered_def Fatal_def logger_def send_def failed_write_def)
  qed
next
  case (PubRandCommitted x)
  show ?thesis
  proof (cases "GetValidator (vs app) (pubRandCommittedEvent.bbnPubKey x)")
    case (Inl a)
    with PubRandCommitted show ?thesis
      by (simp add: on_pubRandCommitted_def Fatal_def logger_def failed_write_def)
  next
    case (Inr val)
    let ?c = "CallSaveValidator (val\<lparr>LastCommittedHeight :=
                 pubRandCommittedEvent.startingHeight x
                 + word_of_int (int (length (pubRandCommittedEvent.pubRandList x)) - 1)\<rparr>)"
    obtain e app1 where c: "call_vs ?c app = (e, app1)" by (cases "call_vs ?c app")
    note t = call_vs_trace [OF c]
    show ?thesis
    proof (cases e)
      case (Some a)
      with PubRandCommitted Inr c t show ?thesis
        by (simp add: on_pubRandCommitted_def Fatal_def logger_def failed_write_def)
    next
      case None
      let ?r = "save_rand_pairs (pubRandCommittedEvent.bbnPubKey x)
                  (pubRandCommittedEvent.startingHeight x) (pubRandCommittedEvent.pubRandList x) 0
                  (pubRandCommittedEvent.privRandList x) app1"
      obtain es where es: "trace (snd ?r) = trace app1 @ es" "sends es = []"
        "failed_write es \<longrightarrow> fst ?r = Exited"
        using save_rand_pairs_trace by blast
      obtain st app2 where r: "?r = (st, app2)" by (cases ?r)
      show ?thesis
      proof (cases "st = Continue")
        case True
        have "on_event ev app = (Continue, send (pubRandCommittedEvent.successResponse x)
                          (commitPubRandResponse (pubRandCommittedEvent.txHash x)) app2)"
          using PubRandCommitted Inr c None r True by (simp add: on_pubRandCommitted_def)
        moreover have "trace app2 = trace app @ (Store ?c True # es)"
          using es(1) r t None by simp
        moreover have "\<not> failed_write (Store ?c True # es)"
          using es(3) r True by (simp add: failed_write_def)
        ultimately show ?thesis
          using PubRandCommitted Inr es(2)
          by (simp add: send_def sends_append failed_write_def)
      next
        case False
        have "on_event ev app = (st, app2)"
          using PubRandCommitted Inr c None r False
          by (cases st) (simp_all add: on_pubRandCommitted_def)
        moreover have "trace app2 = trace app @ (Store ?c True # es)"
          using es(1) r t None by simp
        moreover have "failed_write (Store ?c True # es) \<longrightarrow> st = Exited"
          using es(3) r by (simp add: failed_write_def)
        ultimately show ?thesis
          using PubRandCommitted Inr es(2) False
          by simp
      qed
    qed
  qed
next
  case (JurySigAdded x)
  then show ?thesis
    by (simp add: on_jurySigAdded_def send_def failed_write_def)
qed

lemma eventLoop_stops:
  "eventLoop_step hcv c a = Some (Exited, a1) \<Longrightarrow> eventLoop hcv (c # cs) a = Some (Exited, a1)"
  by simp

text \<open>
  Claim C5. A registration, finality-signature or randomness-commitment completion event
  whose validator is not in the store, or during whose handling a write of the store
  fails, ends in the exit of the process (\<^verbatim>\<open>logger.Fatal\<close>): nothing is sent on a reply
  channel, and the event loop does not run the rest of its schedule.
\<close>

theorem completion_fault_is_fatal:
  assumes "\<forall>j. ev \<noteq> JurySigAdded j"
    and "(\<exists>e. GetValidator (vs app) (event_key ev) = Inl e)
         \<or> failed_write (new_effects app (snd (on_event ev app)))"
  shows "fst (on_event ev app) = Exited
       \<and> sends (new_effects app (snd (on_event ev app))) = []
       \<and> (eventLoop_step hcv c a = Some (on_event ev app)
            \<longrightarrow> eventLoop hcv (c # cs) a = Some (on_event ev app))"
proof -
  obtain es where es: "trace (snd (on_event ev app)) = trace app @ es"
    "sends es = (if fst (on_event ev app) = Continue then [reply_of ev] else [])"
    "failed_write es \<longrightarrow> fst (on_event ev app) = Exited"
    "(\<forall>j. ev \<noteq> JurySigAdded j) \<longrightarrow> (\<forall>e. GetValidator (vs app) (event_key ev) = Inl e
            \<longrightarrow> fst (on_event ev app) = Exited)"
    using on_event_effects by blast
  have n: "new_effects app (snd (on_event ev app)) = es"
    using es(1) by (rule new_effects_append)
  have x: "fst (on_event ev app) = Exited"
    using assms es(3) es(4) n by auto
  then have "on_event ev app = (Exited, snd (on_event ev app))"
    by (cases "on_event ev app") simp
  then have "eventLoop_step hcv c a = Some (on_event ev app)
            \<longrightarrow> eventLoop hcv (c # cs) a = Some (on_event ev app)"
    using eventLoop_stops [of hcv c a "snd (on_event ev app)" cs] by auto
  with x es(2) n show ?thesis by simp
qed

text \<open>
  A registration event for an identity never created, and a commitment whose second write
  fails.
\<close>

theorem completion_fault_is_fatal_witness:
  "GetValidator (vs app0) (event_key (ValidatorRegistered (register_ev [5]))) = Inl NotFound
   \<and> on_event (ValidatorRegistered (register_ev [5])) app0
       = (Exited, app0\<lparr>trace := [Log FatalLevel ''Registred validator not found in DB'' None]\<rparr>)
   \<and> eventLoop no_create [RecvValidatorRegistered, RecvJurySigAdded]
         (app0\<lparr>validatorRegisteredEventChan := [register_ev [5]]\<rparr>)
       = Some (Exited, app0\<lparr>trace := [Log FatalLevel ''Registred validator not found in DB'' None]\<rparr>)
   \<and> failed_write (new_effects (app0\<lparr>vs := store0\<lparr>faults := [False, True]\<rparr>\<rparr>)
        (snd (on_event (PubRandCommitted (commit_ev 100 [[11], [12]] [[21], [22]]))
                (app0\<lparr>vs := store0\<lparr>faults := [False, True]\<rparr>\<rparr>))))
   \<and> fst (on_event (PubRandCommitted (commit_ev 100 [[11], [12]] [[21], [22]]))
                (app0\<lparr>vs := store0\<lparr>faults := [False, True]\<rparr>\<rparr>)) = Exited
   \<and> sends (new_effects (app0\<lparr>vs := store0\<lparr>faults := [False, True]\<rparr>\<rparr>)
        (snd (on_event (PubRandCommitted (commit_ev 100 [[11], [12]] [[21], [22]]))
                (app0\<lparr>vs := store0\<lparr>faults := [False, True]\<rparr>\<rparr>)))) = []"
proof -
  have a: "GetValidator (vs app0) (event_key (ValidatorRegistered (register_ev [5]))) = Inl NotFound"
    by (simp add: GetValidator_def app0_def store0_def register_ev_def pk1_def)
  have j: "\<forall>j. ValidatorRegistered (register_ev [5]) \<noteq> JurySigAdded j" by simp
  have s: "eventLoop_step no_create RecvValidatorRegistered
             (app0\<lparr>validatorRegisteredEventChan := [register_ev [5]]\<rparr>)
           = Some (on_event (ValidatorRegistered (register_ev [5])) app0)"
    by (simp add: app0_def)
  have v: "on_event (ValidatorRegistered (register_ev [5])) app0
       = (Exited, app0\<lparr>trace := [Log FatalLevel ''Registred validator not found in DB'' None]\<rparr>)"
    using a by (simp add: on_validatorRegistered_def Fatal_def logger_def app0_def)
  have j2: "\<forall>j. PubRandCommitted (commit_ev 100 [[11], [12]] [[21], [22]]) \<noteq> JurySigAdded j" by simp
  have w: "failed_write (new_effects (app0\<lparr>vs := store0\<lparr>faults := [False, True]\<rparr>\<rparr>)
        (snd (on_event (PubRandCommitted (commit_ev 100 [[11], [12]] [[21], [22]]))
                (app0\<lparr>vs := store0\<lparr>faults := [False, True]\<rparr>\<rparr>))))"
    by (simp add: on_pubRandCommitted_def GetValidator_def app0_def store0_def commit_ev_def
          call_vs_def SaveValidator_def SaveRandPair_def durable_write_def Fatal_def logger_def
          new_effects_def failed_write_def validator0_def pk1_def Let_def)
  show ?thesis
    using completion_fault_is_fatal [OF j, of app0 no_create RecvValidatorRegistered
            "app0\<lparr>validatorRegisteredEventChan := [register_ev [5]]\<rparr>" "[RecvJurySigAdded]"]
      completion_fault_is_fatal [OF j2, of "app0\<lparr>vs := store0\<lparr>faults := [False, True]\<rparr>\<rparr>"]
      a s v w
    by auto
qed

text \<open>
  Claim C7. The handler of a jury-signature completion event sends the response with the
  transaction hash on the reply channel of the event and changes nothing else: the store,
  with every validator and every randomness pair, is as before.
\<close>

theorem jurySigAdded_changes_nothing:
  "on_event (JurySigAdded ev) app =
     (Continue, app\<lparr>trace := trace app @
        [Send (jurySigAddedEvent.successResponse ev) (addJurySigResponse (jurySigAddedEvent.txHash ev))]\<rparr>)
   \<and> vs (snd (on_event (JurySigAdded ev) app)) = vs app
   \<and> validators (vs (snd (on_event (JurySigAdded ev) app))) = validators (vs app)
   \<and> randPairs (vs (snd (on_event (JurySigAdded ev) app))) = randPairs (vs app)
   \<and> eventLoop_step hcv RecvJurySigAdded (app\<lparr>jurySigAddedEventChan := ev # q\<rparr>) =
       Some (Continue, app\<lparr>jurySigAddedEventChan := q, trace := trace app @
        [Send (jurySigAddedEvent.successResponse ev) (addJurySigResponse (jurySigAddedEvent.txHash ev))]\<rparr>)"
  by (simp add: on_jurySigAdded_def send_def)

section \<open>Properties of the serializer\<close>

lemma on_request_failure:
  assumes "bc (calls app) (call_of r) = Inl e"
  shows "on_request bc r app =
     (Continue, app\<lparr>calls := calls app @ [call_of r],
        trace := trace app @ [Log ErrorLevel (failure_message r) (Some e),
                              Send (errResponse_of r) (ErrorMsg e)]\<rparr>)"
  using assms
  by (cases r)
     (simp_all add: on_addFinalitySigRequest_def on_registerValidatorRequest_def
        on_commitPubRandRequest_def on_addJurySigRequest_def call_bc_def send_def logger_def)

lemma on_request_success:
  assumes "bc (calls app) (call_of r) = Inr tx"
  shows "\<exists>app1. on_request bc r app = (Continue, app1)
     \<and> calls app1 = calls app @ [call_of r]
     \<and> vs app1 = vs app
     \<and> (\<forall>c. waiting c app1 = waiting c app)
     \<and> sends (new_effects app app1) = []
     \<and> emitted app app1 = [completion r tx]"
  using assms
proof (cases r)
  case (AddFinalitySig x)
  with assms show ?thesis
    apply (simp add: on_addFinalitySigRequest_def call_bc_def logger_def new_effects_def emitted_def Let_def)
    apply (rule allI)
    subgoal for c by (cases c) simp_all
    done
next
  case (RegisterValidatorRequest x)
  with assms show ?thesis
    apply (simp add: on_registerValidatorRequest_def call_bc_def logger_def new_effects_def emitted_def Let_def)
    apply (rule allI)
    subgoal for c by (cases c) simp_all
    done
next
  case (CommitPubRand x)
  with assms show ?thesis
    apply (simp add: on_commitPubRandRequest_def call_bc_def logger_def new_effects_def emitted_def Let_def)
    apply (rule allI)
    subgoal for c by (cases c) simp_all
    done
next
  case (AddJurySig x)
  with assms show ?thesis
    apply (simp add: on_addJurySigRequest_def call_bc_def logger_def new_effects_def emitted_def Let_def)
    apply (rule allI)
    subgoal for c by (cases c) simp_all
    done
qed

lemma step_is_on_request:
  assumes "waiting c app = r # q"
  shows "handleSentToBabylonLoop_step bc c app = Some (on_request bc r (receive c app))
       \<and> waiting c (receive c app) = q
       \<and> (\<forall>c'. c' \<noteq> c \<longrightarrow> waiting c' (receive c app) = waiting c' app)
       \<and> calls (receive c app) = calls app \<and> trace (receive c app) = trace app
       \<and> vs (receive c app) = vs app \<and> waiting_events (receive c app) = waiting_events app
       \<and> emitted app (receive c app) = []
       \<and> chan_of r = c"
proof -
  have o: "\<forall>c'. c' \<noteq> c \<longrightarrow> waiting c' (receive c app) = waiting c' app"
  proof (intro allI impI)
    fix c' :: babylonLoop_case
    assume "c' \<noteq> c"
    then show "waiting c' (receive c app) = waiting c' app"
      by (cases c; cases c') simp_all
  qed
  have m: "handleSentToBabylonLoop_step bc c app = Some (on_request bc r (receive c app))
       \<and> waiting c (receive c app) = q \<and> chan_of r = c"
    using assms by (cases c) (auto split: list.splits)
  have f: "calls (receive c app) = calls app \<and> trace (receive c app) = trace app
       \<and> vs (receive c app) = vs app \<and> waiting_events (receive c app) = waiting_events app
       \<and> emitted app (receive c app) = []"
    by (cases c) (simp_all add: waiting_events_def emitted_def)
  show ?thesis using o m f by blast
qed

lemma waiting_frame: "waiting c (app\<lparr>calls := x, trace := y\<rparr>) = waiting c app"
  by (cases c) simp_all

lemma waiting_events_frame: "waiting_events (app\<lparr>calls := x, trace := y\<rparr>) = waiting_events app"
  by (simp add: waiting_events_def)

lemma emitted_frame: "emitted a (app\<lparr>calls := x, trace := y\<rparr>) = emitted a app"
  by (simp add: emitted_def)

lemma step_serves:
  assumes "waiting c app = r # q"
  shows "\<exists>app1. handleSentToBabylonLoop_step bc c app = Some (Continue, app1)
     \<and> calls app1 = calls app @ [call_of r]
     \<and> waiting c app1 = q
     \<and> (\<forall>c'. c' \<noteq> c \<longrightarrow> waiting c' app1 = waiting c' app)"
proof -
  note s = step_is_on_request [OF assms, of bc]
  show ?thesis
  proof (cases "bc (calls app) (call_of r)")
    case (Inl e)
    then have "bc (calls (receive c app)) (call_of r) = Inl e" using s by simp
    from on_request_failure [where bc = bc and app = "receive c app" and r = r and e = e, OF this] s
    show ?thesis
      by (auto simp: waiting_frame)
  next
    case (Inr tx)
    then have "bc (calls (receive c app)) (call_of r) = Inr tx" using s by simp
    from on_request_success [where bc = bc and app = "receive c app" and r = r and tx = tx, OF this] s
    show ?thesis by auto
  qed
qed

lemma failed_call_step:
  assumes "waiting c app = r # q" and "bc (calls app) (call_of r) = Inl e"
  shows "\<exists>app1. handleSentToBabylonLoop_step bc c app = Some (Continue, app1)
     \<and> new_effects app app1 =
         [Log ErrorLevel (failure_message r) (Some e), Send (errResponse_of r) (ErrorMsg e)]
     \<and> emitted app app1 = [] \<and> waiting_events app1 = waiting_events app
     \<and> vs app1 = vs app
     \<and> calls app1 = calls app @ [call_of r]
     \<and> waiting c app1 = q
     \<and> (\<forall>c'. c' \<noteq> c \<longrightarrow> waiting c' app1 = waiting c' app)
     \<and> (\<forall>c' r' q'. waiting c' app1 = r' # q' \<longrightarrow>
          (\<exists>app2. handleSentToBabylonLoop_step bc c' app1 = Some (Continue, app2)
                 \<and> calls app2 = calls app1 @ [call_of r']))"
proof -
  note s = step_is_on_request [OF assms(1), of bc]
  have b: "bc (calls (receive c app)) (call_of r) = Inl e" using assms(2) s by simp
  let ?app1 = "(receive c app)\<lparr>calls := calls (receive c app) @ [call_of r],
        trace := trace (receive c app) @ [Log ErrorLevel (failure_message r) (Some e),
                              Send (errResponse_of r) (ErrorMsg e)]\<rparr>"
  have st: "handleSentToBabylonLoop_step bc c app = Some (Continue, ?app1)"
    using on_request_failure [where bc = bc and app = "receive c app" and r = r and e = e, OF b] s
    by simp
  have n: "new_effects app ?app1 =
         [Log ErrorLevel (failure_message r) (Some e), Send (errResponse_of r) (ErrorMsg e)]"
    using s by (simp add: new_effects_def)
  have w: "waiting c ?app1 = q \<and> (\<forall>c'. c' \<noteq> c \<longrightarrow> waiting c' ?app1 = waiting c' app)"
    using s by (simp add: waiting_frame)
  have ev: "emitted app ?app1 = [] \<and> waiting_events ?app1 = waiting_events app"
    using s by (simp add: emitted_frame waiting_events_frame)
  have v: "vs ?app1 = vs app \<and> calls ?app1 = calls app @ [call_of r]"
    using s by simp
  have nx: "\<forall>c' r' q'. waiting c' ?app1 = r' # q' \<longrightarrow>
          (\<exists>app2. handleSentToBabylonLoop_step bc c' ?app1 = Some (Continue, app2)
                 \<and> calls app2 = calls ?app1 @ [call_of r'])"
    using step_serves [of _ ?app1 _ _ bc] by blast
  show ?thesis
    using st n w ev v nx by blast
qed

lemma kind_call_of: "kind_of_call (call_of r) = chan_of r"
  by (cases r) simp_all

lemma waiting_submit:
  "waiting c (submit r app) = (if c = chan_of r then waiting c app @ [r] else waiting c app)"
  by (cases r; cases c) simp_all

lemma calls_submit: "calls (submit r app) = calls app"
  by (cases r) simp_all

lemma step_ready:
  assumes "handleSentToBabylonLoop_step bc c app = Some sa" and "c \<noteq> RecvQuitBabylon"
  shows "\<exists>r q. waiting c app = r # q"
  using assms by (cases c) (auto split: list.splits)

lemma run_fifo:
  assumes "run bc as (s0, app) = Some (st, app1)"
  shows "filter (\<lambda>x. kind_of_call x = k) (calls app1) @ map call_of (waiting k app1)
         = filter (\<lambda>x. kind_of_call x = k) (calls app)
           @ map call_of (waiting k app @ filter (\<lambda>r. chan_of r = k) (submitted as))
       \<and> length (calls app1) = length (calls app) + served as"
  using assms
proof (induction as arbitrary: s0 app)
  case Nil
  then show ?case by simp
next
  case (Cons a as)
  show ?case
  proof (cases a)
    case (Submit r)
    with Cons.prems have "run bc as (s0, submit r app) = Some (st, app1)" by simp
    from Cons.IH [OF this] Submit show ?thesis
      by (simp add: waiting_submit calls_submit)
  next
    case (Serve c)
    with Cons.prems have s0: "s0 = Continue" by (simp split: if_splits)
    from Cons.prems Serve s0 obtain sa where
      sa: "handleSentToBabylonLoop_step bc c app = Some sa" and r: "run bc as sa = Some (st, app1)"
      by (auto split: option.splits)
    show ?thesis
    proof (cases "c = RecvQuitBabylon")
      case True
      with sa have "sa = (Returned, app)" by (simp split: if_splits)
      with r have "run bc as (Returned, app) = Some (st, app1)" by simp
      from Cons.IH [OF this] Serve True show ?thesis by simp
    next
      case False
      obtain rq q where w: "waiting c app = rq # q"
        using step_ready [OF sa False] by blast
      obtain app2 where a2: "handleSentToBabylonLoop_step bc c app = Some (Continue, app2)"
        and c2: "calls app2 = calls app @ [call_of rq]"
        and w2: "waiting c app2 = q"
        and o2: "\<forall>c'. c' \<noteq> c \<longrightarrow> waiting c' app2 = waiting c' app"
        using step_serves [where bc = bc, OF w] by blast
      from a2 sa r have "run bc as (Continue, app2) = Some (st, app1)" by simp
      note ih = Cons.IH [OF this]
      have kc: "kind_of_call (call_of rq) = c"
        using step_is_on_request [OF w] by (simp add: kind_call_of)
      show ?thesis
      proof (cases "k = c")
        case True
        with ih c2 w2 w kc Serve False show ?thesis by simp
      next
        case False
        with o2 have "waiting k app2 = waiting k app" by simp
        with ih c2 kc False Serve \<open>c \<noteq> RecvQuitBabylon\<close> show ?thesis by auto
      qed
    qed
  qed
qed

text \<open>
  Claim C1, amended. In every execution of the serializer among its callers, each iteration
  makes one chain call, and for each request channel the calls made for it, followed by
  the calls due for the requests that still wait on it, are the requests handed over to
  that channel in the order they were handed over: within one request type the order is
  first in, first out. (Between the types no order holds: the \<^verbatim>\<open>select\<close> takes any ready
  case, as the counterexample below shows.)
\<close>

theorem serializer_fifo_per_channel:
  assumes "run bc as (Continue, app) = Some (st, app1)"
  shows "filter (\<lambda>x. kind_of_call x = k) (calls app1) @ map call_of (waiting k app1)
         = filter (\<lambda>x. kind_of_call x = k) (calls app)
           @ map call_of (waiting k app @ filter (\<lambda>r. chan_of r = k) (submitted as))
       \<and> length (calls app1) = length (calls app) + served as"
  using assms by (rule run_fifo)

lemma run_schedule1:
  "map_option (\<lambda>sa. (fst sa, calls (snd sa))) (run bc_ok schedule1 (Continue, app0))
     = Some (Continue, [SubmitJurySig [2] [6] [8], SubmitFinalitySig [2] 101 [3] [4]])"
  by (simp add: schedule1_def app0_def on_addJurySigRequest_def on_addFinalitySigRequest_def
        call_bc_def bc_ok_def logger_def Let_def jury_req_def finality_req_def)

text \<open>
  Claim C1 as stated fails: a finality-signature request is handed over before a
  jury-signature request, both wait, and the \<^verbatim>\<open>select\<close> takes the jury case first. The jury
  signature reaches the chain before the finality signature.
\<close>

theorem serializer_fifo_counterexample:
  "run bc_ok schedule1 (Continue, app0) \<noteq> None
   \<and> fst (the (run bc_ok schedule1 (Continue, app0))) = Continue
   \<and> calls (snd (the (run bc_ok schedule1 (Continue, app0))))
       = [SubmitJurySig [2] [6] [8], SubmitFinalitySig [2] 101 [3] [4]]
   \<and> map call_of (submitted schedule1)
       = [SubmitFinalitySig [2] 101 [3] [4], SubmitJurySig [2] [6] [8]]
   \<and> \<not> prefix (calls (snd (the (run bc_ok schedule1 (Continue, app0)))))
              (map call_of (submitted schedule1))"
proof -
  obtain st app1 where r: "run bc_ok schedule1 (Continue, app0) = Some (st, app1)"
    using run_schedule1 by (cases "run bc_ok schedule1 (Continue, app0)") auto
  have c: "st = Continue \<and> calls app1 = [SubmitJurySig [2] [6] [8], SubmitFinalitySig [2] 101 [3] [4]]"
    using run_schedule1 r by simp
  have m: "map call_of (submitted schedule1)
       = [SubmitFinalitySig [2] 101 [3] [4], SubmitJurySig [2] [6] [8]]"
    by (simp add: schedule1_def jury_req_def finality_req_def)
  show ?thesis using r c m by simp
qed

lemma run_schedule2:
  "map_option (\<lambda>sa. (calls (snd sa), addFinalitySigRequestChan (snd sa)))
       (run bc_ok schedule2 (Continue, app0))
     = Some ([SubmitJurySig [2] [6] [8], SubmitFinalitySig [2] 101 [3] [4]], [finality_req2])"
  by (simp add: schedule2_def app0_def on_addJurySigRequest_def on_addFinalitySigRequest_def
        call_bc_def bc_ok_def logger_def Let_def jury_req_def finality_req_def)

text \<open>
  Two finality-signature requests around a jury-signature request: the first has been
  called, the second still waits, in that order.
\<close>

theorem serializer_fifo_per_channel_witness:
  "run bc_ok schedule2 (Continue, app0) = Some (the (run bc_ok schedule2 (Continue, app0)))
   \<and> filter (\<lambda>x. kind_of_call x = RecvAddFinalitySigRequest)
        (calls (snd (the (run bc_ok schedule2 (Continue, app0)))))
     @ map call_of (waiting RecvAddFinalitySigRequest (snd (the (run bc_ok schedule2 (Continue, app0)))))
     = [SubmitFinalitySig [2] 101 [3] [4], SubmitFinalitySig [2] 102 [5] [7]]
   \<and> filter (\<lambda>x. kind_of_call x = RecvAddFinalitySigRequest)
        (calls (snd (the (run bc_ok schedule2 (Continue, app0)))))
     = [SubmitFinalitySig [2] 101 [3] [4]]
   \<and> length (calls (snd (the (run bc_ok schedule2 (Continue, app0))))) = 2"
proof -
  obtain st app1 where r: "run bc_ok schedule2 (Continue, app0) = Some (st, app1)"
    using run_schedule2 by (cases "run bc_ok schedule2 (Continue, app0)") auto
  have c: "calls app1 = [SubmitJurySig [2] [6] [8], SubmitFinalitySig [2] 101 [3] [4]]"
    using run_schedule2 r by simp
  show ?thesis
    using serializer_fifo_per_channel [OF r, of RecvAddFinalitySigRequest] r c
    by (simp add: schedule2_def app0_def finality_req_def finality_req2_def)
qed

lemma reply_of_completion:
  "reply_of (completion r tx) = (successResponse_of r, success_message r tx)"
  by (cases r) simp_all

lemma emitted_self: "emitted app app = []"
  by (simp add: emitted_def)

lemma replies_failure:
  assumes "bc (calls app) (call_of r) = Inl e"
  shows "replies bc r app app2 = (Continue, [(errResponse_of r, ErrorMsg e)])"
  using on_request_failure [where bc = bc and app = app and r = r and e = e, OF assms]
  by (simp add: replies_def emitted_frame emitted_self new_effects_def)

lemma replies_success:
  assumes "bc (calls app) (call_of r) = Inr tx"
  shows "replies bc r app app2 =
     (fst (on_event (completion r tx) app2),
      if fst (on_event (completion r tx) app2) = Continue
      then [(successResponse_of r, success_message r tx)] else [])"
proof -
  obtain app1 where a: "on_request bc r app = (Continue, app1)"
    and s: "sends (new_effects app app1) = []"
    and e: "emitted app app1 = [completion r tx]"
    using on_request_success [where bc = bc and app = app and r = r and tx = tx, OF assms] by blast
  obtain es where es: "trace (snd (on_event (completion r tx) app2)) = trace app2 @ es"
    "sends es = (if fst (on_event (completion r tx) app2) = Continue
                 then [reply_of (completion r tx)] else [])"
    using on_event_effects by blast
  have n: "new_effects app2 (snd (on_event (completion r tx) app2)) = es"
    using es(1) by (rule new_effects_append)
  show ?thesis
    using a s e es(2) n
    by (cases "on_event (completion r tx) app2") (simp add: replies_def reply_of_completion)
qed

text \<open>
  Claim C6. The serializer emits one completion event for a request whose chain call
  succeeds and none for one whose call fails. Over the serializer and the event loop,
  when the handling of a request ends in \<open>Continue\<close>, exactly one message has been sent
  on its reply channels: the error of the
  chain call on its error channel, or the response with the transaction hash on its success
  channel. When the handling ends in a fatal fault nothing has been sent. A create-validator
  request, which the event loop handles alone, gets exactly one message too: the error or
  the response of its handler.
\<close>

theorem one_reply_per_request:
  "emitted app (snd (on_request bc r app)) =
     (case bc (calls app) (call_of r) of Inl e \<Rightarrow> [] | Inr tx \<Rightarrow> [completion r tx])
   \<and> (fst (replies bc r app app2) = Continue \<longrightarrow>
      snd (replies bc r app app2) =
        [case bc (calls app) (call_of r) of
           Inl e \<Rightarrow> (errResponse_of r, ErrorMsg e)
         | Inr tx \<Rightarrow> (successResponse_of r, success_message r tx)])
   \<and> (fst (replies bc r app app2) \<noteq> Continue \<longrightarrow> snd (replies bc r app app2) = [])
   \<and> fst (on_createValidatorRequest hcv req app) = Continue
   \<and> sends (new_effects app (snd (on_createValidatorRequest hcv req app))) =
        [case fst (hcv req (vs app)) of
           Inl e \<Rightarrow> (createValidatorRequest.errResponse req, ErrorMsg e)
         | Inr resp \<Rightarrow> (createValidatorRequest.successResponse req, createValidatorResponse resp)]"
proof -
  have a: "(fst (replies bc r app app2) = Continue \<longrightarrow>
      snd (replies bc r app app2) =
        [case bc (calls app) (call_of r) of
           Inl e \<Rightarrow> (errResponse_of r, ErrorMsg e)
         | Inr tx \<Rightarrow> (successResponse_of r, success_message r tx)])
   \<and> (fst (replies bc r app app2) \<noteq> Continue \<longrightarrow> snd (replies bc r app app2) = [])"
  proof (cases "bc (calls app) (call_of r)")
    case (Inl e)
    from replies_failure [where bc = bc and app = app and r = r and e = e, OF this] Inl
    show ?thesis by simp
  next
    case (Inr tx)
    from replies_success [where bc = bc and app = app and r = r and tx = tx, OF this] Inr
    show ?thesis by simp
  qed
  have b: "fst (on_createValidatorRequest hcv req app) = Continue
   \<and> sends (new_effects app (snd (on_createValidatorRequest hcv req app))) =
        [case fst (hcv req (vs app)) of
           Inl e \<Rightarrow> (createValidatorRequest.errResponse req, ErrorMsg e)
         | Inr resp \<Rightarrow> (createValidatorRequest.successResponse req, createValidatorResponse resp)]"
    by (cases "hcv req (vs app)")
       (auto simp: on_createValidatorRequest_def send_def new_effects_def split: sum.splits)
  have c: "emitted app (snd (on_request bc r app)) =
     (case bc (calls app) (call_of r) of Inl e \<Rightarrow> [] | Inr tx \<Rightarrow> [completion r tx])"
  proof (cases "bc (calls app) (call_of r)")
    case (Inl e)
    from on_request_failure [where bc = bc and app = app and r = r and e = e, OF this] Inl
    show ?thesis by (simp add: emitted_frame emitted_self)
  next
    case (Inr tx)
    from on_request_success [where bc = bc and app = app and r = r and tx = tx, OF this] Inr
    show ?thesis by auto
  qed
  show ?thesis using a b c by blast
qed

text \<open>
  A finality signature that completes, one whose store write fails, and a jury signature
  whose chain call fails.
\<close>

theorem one_reply_per_request_witness:
  "fst (replies bc_ok (AddFinalitySig finality_req) app0 app0) = Continue
   \<and> snd (replies bc_ok (AddFinalitySig finality_req) app0 app0) = [(11, addFinalitySigResponse [9])]
   \<and> fst (replies bc_ok (AddFinalitySig finality_req) app0 (app0\<lparr>vs := store0\<lparr>faults := [True]\<rparr>\<rparr>))
       \<noteq> Continue
   \<and> snd (replies bc_ok (AddFinalitySig finality_req) app0 (app0\<lparr>vs := store0\<lparr>faults := [True]\<rparr>\<rparr>))
       = []
   \<and> fst (replies bc_no_jury (AddJurySig jury_req) app0 app0) = Continue
   \<and> snd (replies bc_no_jury (AddJurySig jury_req) app0 app0) = [(20, ErrorMsg (Err ''rpc''))]"
proof -
  have b: "bc_ok (calls app0) (call_of (AddFinalitySig finality_req)) = Inr [9]"
    by (simp add: bc_ok_def)
  have j: "bc_no_jury (calls app0) (call_of (AddJurySig jury_req)) = Inl (Err ''rpc'')"
    by (simp add: bc_no_jury_def)
  have e1: "fst (on_event (completion (AddFinalitySig finality_req) [9]) app0) = Continue"
    by (simp add: on_finalitySigAdded_def GetValidator_def
          app0_def store0_def finality_req_def call_vs_def SetValidatorLastVotedHeight_def
          SaveValidator_def durable_write_def)
  have e2: "fst (on_event (completion (AddFinalitySig finality_req) [9])
                   (app0\<lparr>vs := store0\<lparr>faults := [True]\<rparr>\<rparr>)) = Exited"
    by (simp add: on_finalitySigAdded_def GetValidator_def
          app0_def store0_def finality_req_def call_vs_def SetValidatorLastVotedHeight_def
          SaveValidator_def durable_write_def Fatal_def)
  have 1: "fst (replies bc_ok (AddFinalitySig finality_req) app0 app0) = Continue"
    using e1
    by (simp only: replies_success [where bc = bc_ok and app = app0
                     and r = "AddFinalitySig finality_req" and tx = "[9]", OF b] fst_conv)
  have 2: "fst (replies bc_ok (AddFinalitySig finality_req) app0 (app0\<lparr>vs := store0\<lparr>faults := [True]\<rparr>\<rparr>))
       \<noteq> Continue"
    using e2
    by (simp only: replies_success [where bc = bc_ok and app = app0
                     and r = "AddFinalitySig finality_req" and tx = "[9]", OF b] fst_conv)
       simp
  have 3: "fst (replies bc_no_jury (AddJurySig jury_req) app0 app0) = Continue"
    by (simp only: replies_failure [where bc = bc_no_jury and app = app0
                     and r = "AddJurySig jury_req" and e = "Err ''rpc''", OF j] fst_conv)
  show ?thesis
    using one_reply_per_request [of app0 bc_ok "AddFinalitySig finality_req" app0]
      one_reply_per_request [of app0 bc_ok "AddFinalitySig finality_req"
         "app0\<lparr>vs := store0\<lparr>faults := [True]\<rparr>\<rparr>"]
      one_reply_per_request [of app0 bc_no_jury "AddJurySig jury_req" app0]
      1 2 3 b j
    by (simp add: finality_req_def jury_req_def)
qed

section \<open>The last voted height\<close>

lemma votes_kept_refl: "votes_kept s s"
  by (simp add: votes_kept_def)

lemma votes_kept_same: "validators t = validators s \<Longrightarrow> votes_kept s t"
  by (simp add: votes_kept_def)

lemma votes_kept_trans: "votes_kept s t \<Longrightarrow> votes_kept t u \<Longrightarrow> votes_kept s u"
  unfolding votes_kept_def
proof (intro allI impI)
  fix k v
  assume st: "\<forall>k v. validators s k = Some v \<longrightarrow>
        (\<exists>w. validators t k = Some w \<and> LastVotedHeight v \<le> LastVotedHeight w)"
    and tu: "\<forall>k v. validators t k = Some v \<longrightarrow>
        (\<exists>w. validators u k = Some w \<and> LastVotedHeight v \<le> LastVotedHeight w)"
    and v: "validators s k = Some v"
  from st v obtain w where w: "validators t k = Some w" "LastVotedHeight v \<le> LastVotedHeight w"
    by blast
  from tu w(1) obtain x where x: "validators u k = Some x" "LastVotedHeight w \<le> LastVotedHeight x"
    by blast
  from w(2) x show "\<exists>w. validators u k = Some w \<and> LastVotedHeight v \<le> LastVotedHeight w"
    by auto
qed

lemma SaveValidator_validators:
  "validators (snd (SaveValidator s v)) =
     (if fst (SaveValidator s v) = None then (validators s)(BabylonPk v \<mapsto> v) else validators s)"
  by (cases "faults s") (simp_all add: SaveValidator_def durable_write_def)

lemma SaveRandPair_validators: "validators (snd (SaveRandPair s k h p)) = validators s"
  by (cases "faults s") (simp_all add: SaveRandPair_def durable_write_def split: option.split)

lemma SaveValidator_keeps:
  assumes "store_wf s" and "validators s (BabylonPk v) = Some v0"
    and "LastVotedHeight v0 \<le> LastVotedHeight v"
  shows "store_wf (snd (SaveValidator s v)) \<and> votes_kept s (snd (SaveValidator s v))"
  using assms
  by (auto simp: store_wf_def votes_kept_def SaveValidator_validators)

lemma GetValidator_Inr:
  "GetValidator s k = Inr val \<Longrightarrow> validators s k = Some val"
  by (simp add: GetValidator_def split: option.splits)

lemma vs_call_vs: "vs (snd (call_vs c app)) = snd (exec_store c (vs app))"
  by (cases "exec_store c (vs app)") (simp add: call_vs_def)

lemma fst_call_vs: "fst (call_vs c app) = fst (exec_store c (vs app))"
  by (cases "exec_store c (vs app)") (simp add: call_vs_def)

lemma save_rand_pairs_validators:
  "validators (vs (snd (save_rand_pairs k start pub i prs app))) = validators (vs app)"
proof (induction prs arbitrary: i app)
  case Nil
  show ?case by simp
next
  case (Cons pr prs)
  let ?c = "CallSaveRandPair k (start + word_of_nat i) \<lparr>SecRand = pr, PubRand = pub ! i\<rparr>"
  obtain e app1 where c: "call_vs ?c app = (e, app1)" by (cases "call_vs ?c app")
  have v: "validators (vs app1) = validators (vs app)"
    using vs_call_vs [of ?c app] c by (simp add: SaveRandPair_validators)
  show ?case
  proof (cases "i < length pub")
    case False
    then show ?thesis by simp
  next
    case True
    show ?thesis
    proof (cases e)
      case None
      with True c v Cons.IH [of "Suc i" app1] show ?thesis by simp
    next
      case (Some x)
      with True c v show ?thesis by (simp add: Fatal_def logger_def)
    qed
  qed
qed

lemma on_finalitySigAdded_keeps:
  assumes "store_wf (vs app)"
  shows "store_wf (vs (snd (on_finalitySigAdded ev app)))
       \<and> votes_kept (vs app) (vs (snd (on_finalitySigAdded ev app)))"
proof (cases "GetValidator (vs app) (finalitySigAddedEvent.bbnPubKey ev)")
  case (Inl a)
  then show ?thesis using assms
    by (simp add: on_finalitySigAdded_def Fatal_def logger_def votes_kept_refl)
next
  case (Inr val)
  let ?v = "if LastVotedHeight val < height ev then val\<lparr>LastVotedHeight := height ev\<rparr> else val"
  let ?c = "CallSetValidatorLastVotedHeight val (height ev)"
  have g: "validators (vs app) (finalitySigAddedEvent.bbnPubKey ev) = Some val"
    using Inr by (rule GetValidator_Inr)
  then have k: "BabylonPk val = finalitySigAddedEvent.bbnPubKey ev"
    using assms by (simp add: store_wf_def)
  have "validators (vs app) (BabylonPk ?v) = Some val" using g k by simp
  moreover have "LastVotedHeight val \<le> LastVotedHeight ?v" by (simp add: less_imp_le)
  ultimately have s: "store_wf (snd (SaveValidator (vs app) ?v))
       \<and> votes_kept (vs app) (snd (SaveValidator (vs app) ?v))"
    using SaveValidator_keeps [OF assms] by blast
  obtain e app1 where c: "call_vs ?c app = (e, app1)" by (cases "call_vs ?c app")
  have "vs app1 = snd (SaveValidator (vs app) ?v)"
    using vs_call_vs [of ?c app] c by (simp add: SetValidatorLastVotedHeight_def)
  with s have "store_wf (vs app1) \<and> votes_kept (vs app) (vs app1)" by simp
  then show ?thesis using Inr c
    by (cases e) (simp_all add: on_finalitySigAdded_def Fatal_def logger_def send_def)
qed

lemma on_validatorRegistered_keeps:
  assumes "store_wf (vs app)"
  shows "store_wf (vs (snd (on_validatorRegistered ev app)))
       \<and> votes_kept (vs app) (vs (snd (on_validatorRegistered ev app)))"
proof (cases "GetValidator (vs app) (validatorRegisteredEvent.bbnPubKey ev)")
  case (Inl a)
  then show ?thesis using assms
    by (simp add: on_validatorRegistered_def Fatal_def logger_def votes_kept_refl)
next
  case (Inr val)
  let ?v = "val\<lparr>Status := REGISTERED\<rparr>"
  let ?c = "CallSetValidatorStatus val REGISTERED"
  have g: "validators (vs app) (validatorRegisteredEvent.bbnPubKey ev) = Some val"
    using Inr by (rule GetValidator_Inr)
  then have k: "BabylonPk val = validatorRegisteredEvent.bbnPubKey ev"
    using assms by (simp add: store_wf_def)
  have "validators (vs app) (BabylonPk ?v) = Some val" using g k by simp
  moreover have "LastVotedHeight val \<le> LastVotedHeight ?v" by simp
  ultimately have s: "store_wf (snd (SaveValidator (vs app) ?v))
       \<and> votes_kept (vs app) (snd (SaveValidator (vs app) ?v))"
    using SaveValidator_keeps [OF assms] by blast
  obtain e app1 where c: "call_vs ?c app = (e, app1)" by (cases "call_vs ?c app")
  have "vs app1 = snd (SaveValidator (vs app) ?v)"
    using vs_call_vs [of ?c app] c by (simp add: SetValidatorStatus_def)
  with s have "store_wf (vs app1) \<and> votes_kept (vs app) (vs app1)" by simp
  then show ?thesis using Inr c
    by (cases e) (simp_all add: on_validatorRegistered_def Fatal_def logger_def send_def)
qed

lemma on_pubRandCommitted_keeps:
  assumes "store_wf (vs app)"
  shows "store_wf (vs (snd (on_pubRandCommitted ev app)))
       \<and> votes_kept (vs app) (vs (snd (on_pubRandCommitted ev app)))"
proof (cases "GetValidator (vs app) (pubRandCommittedEvent.bbnPubKey ev)")
  case (Inl a)
  then show ?thesis using assms
    by (simp add: on_pubRandCommitted_def Fatal_def logger_def votes_kept_refl)
next
  case (Inr val)
  let ?v = "val\<lparr>LastCommittedHeight := pubRandCommittedEvent.startingHeight ev
                 + word_of_int (int (length (pubRandCommittedEvent.pubRandList ev)) - 1)\<rparr>"
  let ?c = "CallSaveValidator ?v"
  have g: "validators (vs app) (pubRandCommittedEvent.bbnPubKey ev) = Some val"
    using Inr by (rule GetValidator_Inr)
  then have k: "BabylonPk val = pubRandCommittedEvent.bbnPubKey ev"
    using assms by (simp add: store_wf_def)
  have "validators (vs app) (BabylonPk ?v) = Some val" using g k by simp
  moreover have "LastVotedHeight val \<le> LastVotedHeight ?v" by simp
  ultimately have s: "store_wf (snd (SaveValidator (vs app) ?v))
       \<and> votes_kept (vs app) (snd (SaveValidator (vs app) ?v))"
    using SaveValidator_keeps [OF assms] by blast
  obtain e app1 where c: "call_vs ?c app = (e, app1)" by (cases "call_vs ?c app")
  have "vs app1 = snd (SaveValidator (vs app) ?v)"
    using vs_call_vs [of ?c app] c by simp
  with s have s1: "store_wf (vs app1) \<and> votes_kept (vs app) (vs app1)" by simp
  show ?thesis
  proof (cases e)
    case (Some x)
    with Inr c s1 show ?thesis
      by (simp add: on_pubRandCommitted_def Fatal_def logger_def)
  next
    case None
    let ?r = "save_rand_pairs (pubRandCommittedEvent.bbnPubKey ev)
                  (pubRandCommittedEvent.startingHeight ev) (pubRandCommittedEvent.pubRandList ev) 0
                  (pubRandCommittedEvent.privRandList ev) app1"
    obtain st app2 where r: "?r = (st, app2)" by (cases ?r)
    have "validators (vs app2) = validators (vs app1)"
      using save_rand_pairs_validators [of "pubRandCommittedEvent.bbnPubKey ev"
              "pubRandCommittedEvent.startingHeight ev" "pubRandCommittedEvent.pubRandList ev" 0
              "pubRandCommittedEvent.privRandList ev" app1] r by simp
    with s1 have s2: "store_wf (vs app2) \<and> votes_kept (vs app) (vs app2)"
      by (simp add: store_wf_def votes_kept_def)
    show ?thesis using Inr c None r s2
      by (cases st) (simp_all add: on_pubRandCommitted_def send_def)
  qed
qed

lemma eventLoop_step_keeps:
  assumes "store_wf (vs app)" and "create_keeps hcv"
    and "eventLoop_step hcv c app = Some (st, app1)"
  shows "store_wf (vs app1) \<and> votes_kept (vs app) (vs app1)"
proof (cases c)
  case RecvCreateValidatorRequest
  with assms(3) obtain req q where q: "createValidatorRequestChan app = req # q"
    and o: "on_createValidatorRequest hcv req (app\<lparr>createValidatorRequestChan := q\<rparr>) = (st, app1)"
    by (auto split: list.splits)
  have "vs app1 = snd (hcv req (vs app))"
    using o by (auto simp: on_createValidatorRequest_def send_def split: prod.splits sum.splits)
  with assms(1) assms(2) show ?thesis by (simp add: create_keeps_def)
next
  case RecvFinalitySigAdded
  with assms(3) obtain ev q where
    o: "on_finalitySigAdded ev (app\<lparr>finalitySigAddedEventChan := q\<rparr>) = (st, app1)"
    by (auto split: list.splits)
  from on_finalitySigAdded_keeps [of "app\<lparr>finalitySigAddedEventChan := q\<rparr>" ev] assms(1) o
  show ?thesis by simp
next
  case RecvValidatorRegistered
  with assms(3) obtain ev q where
    o: "on_validatorRegistered ev (app\<lparr>validatorRegisteredEventChan := q\<rparr>) = (st, app1)"
    by (auto split: list.splits)
  from on_validatorRegistered_keeps [of "app\<lparr>validatorRegisteredEventChan := q\<rparr>" ev] assms(1) o
  show ?thesis by simp
next
  case RecvPubRandCommitted
  with assms(3) obtain ev q where
    o: "on_pubRandCommitted ev (app\<lparr>pubRandCommittedEventChan := q\<rparr>) = (st, app1)"
    by (auto split: list.splits)
  from on_pubRandCommitted_keeps [of "app\<lparr>pubRandCommittedEventChan := q\<rparr>" ev] assms(1) o
  show ?thesis by simp
next
  case RecvJurySigAdded
  with assms(3) assms(1) show ?thesis
    by (auto simp: on_jurySigAdded_def send_def votes_kept_refl split: list.splits)
next
  case RecvQuit
  with assms(3) assms(1) show ?thesis
    by (auto simp: votes_kept_refl split: if_splits)
qed

lemma eventLoop_keeps:
  assumes "store_wf (vs app)" and "create_keeps hcv"
    and "eventLoop hcv cs app = Some (st, app1)"
  shows "store_wf (vs app1) \<and> votes_kept (vs app) (vs app1)"
  using assms
proof (induction cs arbitrary: app)
  case Nil
  then show ?case by (simp add: votes_kept_refl)
next
  case (Cons c cs)
  from Cons.prems(3) obtain s2 app2 where s: "eventLoop_step hcv c app = Some (s2, app2)"
    by (auto split: option.splits)
  note k = eventLoop_step_keeps [OF Cons.prems(1) Cons.prems(2) s]
  show ?case
  proof (cases "s2 = Continue")
    case True
    with Cons.prems(3) s have "eventLoop hcv cs app2 = Some (st, app1)" by simp
    from Cons.IH [OF _ Cons.prems(2) this] k show ?thesis
      by (blast intro: votes_kept_trans)
  next
    case False
    with Cons.prems(3) s have "app1 = app2" by (cases s2) simp_all
    with k show ?thesis by simp
  qed
qed

lemma create_keeps_no_create: "create_keeps no_create"
  by (simp add: create_keeps_def no_create_def votes_kept_refl)

text \<open>
  Claim C2. In a well-formed store, the handler of a finality-signature completion event
  that ends well leaves the validator of the event with \<open>LastVotedHeight\<close> equal to the
  height of the event if that is greater than the height it had, and unchanged otherwise,
  and touches no other validator. Over any schedule of the event loop, every validator of
  the store is still there afterwards with a \<open>LastVotedHeight\<close> at least as high.
\<close>

theorem last_voted_height_never_decreases:
  assumes "store_wf (vs app)"
  shows "(validators (vs app) (finalitySigAddedEvent.bbnPubKey ev) = Some val
          \<and> fst (on_event (FinalitySigAdded ev) app) = Continue
        \<longrightarrow> validators (vs (snd (on_event (FinalitySigAdded ev) app)))
            = (validators (vs app))(finalitySigAddedEvent.bbnPubKey ev \<mapsto>
                 (if LastVotedHeight val < height ev then val\<lparr>LastVotedHeight := height ev\<rparr>
                  else val)))
       \<and> (create_keeps hcv \<and> eventLoop hcv cs app = Some (st, app1)
        \<longrightarrow> (\<forall>k v. validators (vs app) k = Some v \<longrightarrow>
              (\<exists>w. validators (vs app1) k = Some w \<and> LastVotedHeight v \<le> LastVotedHeight w)))"
proof -
  have a: "validators (vs (snd (on_event (FinalitySigAdded ev) app)))
            = (validators (vs app))(finalitySigAddedEvent.bbnPubKey ev \<mapsto>
                 (if LastVotedHeight val < height ev then val\<lparr>LastVotedHeight := height ev\<rparr>
                  else val))"
    if g: "validators (vs app) (finalitySigAddedEvent.bbnPubKey ev) = Some val"
      and c: "fst (on_event (FinalitySigAdded ev) app) = Continue"
  proof -
    let ?v = "if LastVotedHeight val < height ev then val\<lparr>LastVotedHeight := height ev\<rparr> else val"
    let ?c = "CallSetValidatorLastVotedHeight val (height ev)"
    have k: "BabylonPk ?v = finalitySigAddedEvent.bbnPubKey ev"
      using g assms by (simp add: store_wf_def)
    have gv: "GetValidator (vs app) (finalitySigAddedEvent.bbnPubKey ev) = Inr val"
      using g by (simp add: GetValidator_def)
    obtain e app2 where cv: "call_vs ?c app = (e, app2)" by (cases "call_vs ?c app")
    have e: "e = None"
      using c gv cv by (cases e) (simp_all add: on_finalitySigAdded_def Fatal_def)
    have "fst (SaveValidator (vs app) ?v) = None"
      using fst_call_vs [of ?c app] cv e by (simp add: SetValidatorLastVotedHeight_def)
    then have "validators (snd (SaveValidator (vs app) ?v)) = (validators (vs app))(BabylonPk ?v \<mapsto> ?v)"
      by (simp add: SaveValidator_validators)
    moreover have "vs app2 = snd (SaveValidator (vs app) ?v)"
      using vs_call_vs [of ?c app] cv by (simp add: SetValidatorLastVotedHeight_def)
    moreover have "snd (on_event (FinalitySigAdded ev) app) =
        send (finalitySigAddedEvent.successResponse ev)
          (addFinalitySigResponse (finalitySigAddedEvent.txHash ev)) app2"
      using gv cv e by (simp add: on_finalitySigAdded_def)
    ultimately show ?thesis using k by (simp add: send_def)
  qed
  have b: "\<forall>k v. validators (vs app) k = Some v \<longrightarrow>
              (\<exists>w. validators (vs app1) k = Some w \<and> LastVotedHeight v \<le> LastVotedHeight w)"
    if "create_keeps hcv" and "eventLoop hcv cs app = Some (st, app1)"
    using eventLoop_keeps [OF assms that] by (simp add: votes_kept_def)
  show ?thesis using a b by blast
qed

text \<open>
  A vote at height 101 and then one at height 100, for a validator that has not voted: the
  height becomes 101 and stays there.
\<close>

theorem last_voted_height_never_decreases_witness:
  "store_wf (vs app_votes)
   \<and> validators (vs app_votes) (finalitySigAddedEvent.bbnPubKey (vote_ev 101)) = Some validator0
   \<and> fst (on_event (FinalitySigAdded (vote_ev 101)) app_votes) = Continue
   \<and> validators (vs (snd (on_event (FinalitySigAdded (vote_ev 101)) app_votes))) pk1
       = Some (validator0\<lparr>LastVotedHeight := 101\<rparr>)
   \<and> create_keeps no_create
   \<and> eventLoop no_create [RecvFinalitySigAdded, RecvFinalitySigAdded] app_votes
       = Some (the (eventLoop no_create [RecvFinalitySigAdded, RecvFinalitySigAdded] app_votes))
   \<and> validators (vs (snd (the (eventLoop no_create [RecvFinalitySigAdded, RecvFinalitySigAdded]
                                  app_votes)))) pk1
       = Some (validator0\<lparr>LastVotedHeight := 101\<rparr>)
   \<and> (\<exists>w. validators (vs (snd (the (eventLoop no_create [RecvFinalitySigAdded, RecvFinalitySigAdded]
                                  app_votes)))) pk1 = Some w
          \<and> LastVotedHeight validator0 \<le> LastVotedHeight w)"
proof -
  have w: "store_wf (vs app_votes)"
    by (simp add: store_wf_def app_votes_def app0_def store0_def validator0_def)
  have g: "validators (vs app_votes) (finalitySigAddedEvent.bbnPubKey (vote_ev 101)) = Some validator0"
    by (simp add: app_votes_def app0_def store0_def vote_ev_def)
  have c: "fst (on_event (FinalitySigAdded (vote_ev 101)) app_votes) = Continue"
    by (simp add: on_finalitySigAdded_def GetValidator_def app_votes_def app0_def store0_def
          vote_ev_def call_vs_def SetValidatorLastVotedHeight_def SaveValidator_def
          durable_write_def)
  have l: "map_option (\<lambda>sa. (fst sa, validators (vs (snd sa)) pk1))
             (eventLoop no_create [RecvFinalitySigAdded, RecvFinalitySigAdded] app_votes)
           = Some (Continue, Some (validator0\<lparr>LastVotedHeight := 101\<rparr>))"
    by (simp add: on_finalitySigAdded_def GetValidator_def app_votes_def app0_def store0_def
          vote_ev_def call_vs_def SetValidatorLastVotedHeight_def SaveValidator_def
          durable_write_def send_def validator0_def)
  obtain st app1 where r: "eventLoop no_create [RecvFinalitySigAdded, RecvFinalitySigAdded] app_votes
      = Some (st, app1)"
    using l by (cases "eventLoop no_create [RecvFinalitySigAdded, RecvFinalitySigAdded] app_votes") auto
  have v: "validators (vs app1) pk1 = Some (validator0\<lparr>LastVotedHeight := 101\<rparr>)"
    using l r by simp
  have h: "validator0\<lparr>LastVotedHeight := 101\<rparr>
         = (if LastVotedHeight validator0 < height (vote_ev 101)
            then validator0\<lparr>LastVotedHeight := height (vote_ev 101)\<rparr> else validator0)"
    by (simp add: validator0_def vote_ev_def)
  note t = last_voted_height_never_decreases [OF w, of "vote_ev 101" validator0 no_create
            "[RecvFinalitySigAdded, RecvFinalitySigAdded]" st app1]
  have a: "validators (vs (snd (on_event (FinalitySigAdded (vote_ev 101)) app_votes)))
            = (validators (vs app_votes))(finalitySigAddedEvent.bbnPubKey (vote_ev 101) \<mapsto>
                 (if LastVotedHeight validator0 < height (vote_ev 101)
                  then validator0\<lparr>LastVotedHeight := height (vote_ev 101)\<rparr> else validator0))"
    using t g c by blast
  have a1: "validators (vs (snd (on_event (FinalitySigAdded (vote_ev 101)) app_votes))) pk1
       = Some (validator0\<lparr>LastVotedHeight := 101\<rparr>)"
    by (simp only: a h [symmetric]) (simp add: vote_ev_def)
  have b: "\<forall>k v. validators (vs app_votes) k = Some v \<longrightarrow>
              (\<exists>w. validators (vs app1) k = Some w \<and> LastVotedHeight v \<le> LastVotedHeight w)"
    using t create_keeps_no_create r by blast
  have g1: "validators (vs app_votes) pk1 = Some validator0"
    using g by (simp add: vote_ev_def)
  have b1: "\<exists>w. validators (vs app1) pk1 = Some w \<and> LastVotedHeight validator0 \<le> LastVotedHeight w"
    using b g1 by blast
  have s: "the (eventLoop no_create [RecvFinalitySigAdded, RecvFinalitySigAdded] app_votes) = (st, app1)"
    using r by simp
  have e: "eventLoop no_create [RecvFinalitySigAdded, RecvFinalitySigAdded] app_votes
       = Some (the (eventLoop no_create [RecvFinalitySigAdded, RecvFinalitySigAdded] app_votes))"
    using r by simp
  have s2: "snd (the (eventLoop no_create [RecvFinalitySigAdded, RecvFinalitySigAdded] app_votes)) = app1"
    using s by simp
  show ?thesis
    unfolding s2 using w g c a1 create_keeps_no_create e v b1 by blast
qed

section \<open>Properties of the jury reactor\<close>

lemma submit_jury_sigs_state:
  "fst (submit_jury_sigs add pk ds (s, lg)) = fold (\<lambda>d t. snd (add d t)) ds s"
proof (induction ds arbitrary: s lg)
  case Nil
  show ?case by simp
next
  case (Cons d ds)
  show ?case
    by (cases "add d s") (auto simp: Cons.IH split: sum.splits)
qed

lemma submit_jury_sigs_log:
  "\<exists>new. snd (submit_jury_sigs add pk ds (s, lg)) = lg @ new"
proof (induction ds arbitrary: s lg)
  case Nil
  show ?case by simp
next
  case (Cons d ds)
  obtain r s1 where a: "add d s = (r, s1)" by (cases "add d s")
  show ?case
  proof (cases r)
    case (Inl e)
    obtain new where "snd (submit_jury_sigs add pk ds
        (s1, lg @ [LogError ''failed to submit Jury sig to the Bitcoin delegation'' e (Some (pk d))]))
      = (lg @ [LogError ''failed to submit Jury sig to the Bitcoin delegation'' e (Some (pk d))]) @ new"
      using Cons.IH [of s1 "lg @ [LogError ''failed to submit Jury sig to the Bitcoin delegation'' e (Some (pk d))]"]
      by blast
    with a Inl show ?thesis by simp
  next
    case (Inr x)
    with a Cons.IH [of s1 lg] show ?thesis by simp
  qed
qed

lemma submit_jury_sigs_append:
  "submit_jury_sigs add pk (xs @ ys) sl = submit_jury_sigs add pk ys (submit_jury_sigs add pk xs sl)"
proof (induction xs arbitrary: sl)
  case Nil
  show ?case by (cases sl) simp
next
  case (Cons d xs)
  obtain s lg where sl: "sl = (s, lg)" by (cases sl)
  show ?case unfolding sl
    by (cases "add d s") (auto simp: Cons.IH split: sum.splits)
qed

lemma submit_jury_sigs_logged:
  assumes "dels = ds1 @ d # ds2"
    and "fst (add d (fold (\<lambda>d t. snd (add d t)) ds1 s)) = Inl e"
  shows "LogError ''failed to submit Jury sig to the Bitcoin delegation'' e (Some (pk d))
           \<in> set (drop (length lg) (snd (submit_jury_sigs add pk dels (s, lg))))"
proof -
  let ?s1 = "fold (\<lambda>d t. snd (add d t)) ds1 s"
  let ?entry = "LogError ''failed to submit Jury sig to the Bitcoin delegation'' e (Some (pk d))"
  obtain n1 where n1: "snd (submit_jury_sigs add pk ds1 (s, lg)) = lg @ n1"
    using submit_jury_sigs_log [of add pk ds1 s lg] by blast
  have p1: "submit_jury_sigs add pk ds1 (s, lg) = (?s1, lg @ n1)"
    using n1 submit_jury_sigs_state [of add pk ds1 s lg]
    by (cases "submit_jury_sigs add pk ds1 (s, lg)") simp
  obtain s2 where a: "add d ?s1 = (Inl e, s2)"
    using assms(2) by (cases "add d ?s1") simp
  obtain n2 where n2: "snd (submit_jury_sigs add pk ds2 (s2, (lg @ n1) @ [?entry]))
       = ((lg @ n1) @ [?entry]) @ n2"
    using submit_jury_sigs_log [of add pk ds2 s2 "(lg @ n1) @ [?entry]"] by blast
  have "submit_jury_sigs add pk dels (s, lg)
      = submit_jury_sigs add pk (d # ds2) (?s1, lg @ n1)"
    using assms(1) p1 by (simp add: submit_jury_sigs_append)
  also have "\<dots> = submit_jury_sigs add pk ds2 (s2, (lg @ n1) @ [?entry])"
    using a by simp
  finally have "snd (submit_jury_sigs add pk dels (s, lg)) = lg @ (n1 @ [?entry] @ n2)"
    using n2 by simp
  then show ?thesis by simp
qed

text \<open>
  Claim C8. In a tick of the jury reactor, when the pending delegations cannot be fetched
  the error is logged, no signature is attempted and the loop goes on to its next tick.
  When they are fetched, \<^verbatim>\<open>AddJurySignature\<close> is called on every delegation of the list, in
  order, whatever the outcome of the earlier ones; each failure is logged with its error
  and the key of its delegation, and the loop goes on.
\<close>

theorem jury_tick_survives_failures:
  "(fst (get s) = Inl e \<longrightarrow>
      jurySigSubmissionLoop_tick get add pk (s, lg) =
        (Continue, snd (get s), lg @ [LogError ''failed to get pending delegations'' e None]))
   \<and> (fst (get s) = Inr dels \<longrightarrow>
        fst (jurySigSubmissionLoop_tick get add pk (s, lg)) = Continue
      \<and> fst (snd (jurySigSubmissionLoop_tick get add pk (s, lg)))
          = fold (\<lambda>d t. snd (add d t)) dels (snd (get s))
      \<and> (\<forall>ds1 d ds2 x.
            dels = ds1 @ d # ds2
            \<and> fst (add d (fold (\<lambda>d t. snd (add d t)) ds1 (snd (get s)))) = Inl x
            \<longrightarrow> LogError ''failed to submit Jury sig to the Bitcoin delegation'' x (Some (pk d))
                  \<in> set (drop (length lg) (snd (snd (jurySigSubmissionLoop_tick get add pk (s, lg)))))))
   \<and> jurySigSubmissionLoop get add pk (Suc n) (s, lg)
       = jurySigSubmissionLoop get add pk n (snd (jurySigSubmissionLoop_tick get add pk (s, lg)))"
proof -
  have a: "jurySigSubmissionLoop_tick get add pk (s, lg) =
        (Continue, snd (get s), lg @ [LogError ''failed to get pending delegations'' e None])"
    if "fst (get s) = Inl e"
    using that by (cases "get s") (simp add: jurySigSubmissionLoop_tick_def)
  have t: "jurySigSubmissionLoop_tick get add pk (s, lg)
         = (Continue, submit_jury_sigs add pk dels (snd (get s), lg))"
    if "fst (get s) = Inr dels"
    using that by (cases "get s") (simp add: jurySigSubmissionLoop_tick_def)
  have b: "fst (jurySigSubmissionLoop_tick get add pk (s, lg)) = Continue
      \<and> fst (snd (jurySigSubmissionLoop_tick get add pk (s, lg)))
          = fold (\<lambda>d t. snd (add d t)) dels (snd (get s))
      \<and> (\<forall>ds1 d ds2 x.
            dels = ds1 @ d # ds2
            \<and> fst (add d (fold (\<lambda>d t. snd (add d t)) ds1 (snd (get s)))) = Inl x
            \<longrightarrow> LogError ''failed to submit Jury sig to the Bitcoin delegation'' x (Some (pk d))
                  \<in> set (drop (length lg) (snd (snd (jurySigSubmissionLoop_tick get add pk (s, lg))))))"
    if g: "fst (get s) = Inr dels"
    using submit_jury_sigs_logged [of dels _ _ _ add "snd (get s)" _ pk lg]
    by (simp add: t [OF g] submit_jury_sigs_state)
  have c: "fst (jurySigSubmissionLoop_tick get add pk (s, lg)) = Continue"
    by (cases "get s") (auto simp: jurySigSubmissionLoop_tick_def split: sum.splits)
  have d: "jurySigSubmissionLoop get add pk (Suc n) (s, lg)
       = jurySigSubmissionLoop get add pk n (snd (jurySigSubmissionLoop_tick get add pk (s, lg)))"
    using c by (cases "jurySigSubmissionLoop_tick get add pk (s, lg)") simp
  show ?thesis using a b d by blast
qed

text \<open>
  The list cannot be fetched: one log entry, no attempt. The second of three delegations
  fails: all three are attempted and the failure is logged.
\<close>

theorem jury_tick_survives_failures_witness:
  "fst (get_down []) = Inl (Err ''rpc'')
   \<and> jurySigSubmissionLoop_tick get_down add_not_2 pk_of ([], []) =
        (Continue, [], [LogError ''failed to get pending delegations'' (Err ''rpc'') None])
   \<and> fst (get_three []) = Inr [1, 2, 3]
   \<and> jurySigSubmissionLoop_tick get_three add_not_2 pk_of ([], []) =
        (Continue, [1, 2, 3],
         [LogError ''failed to submit Jury sig to the Bitcoin delegation'' (Err ''sign'') (Some [2])])
   \<and> fst (add_not_2 2 (fold (\<lambda>d t. snd (add_not_2 d t)) [1] (snd (get_three [])))) = Inl (Err ''sign'')
   \<and> LogError ''failed to submit Jury sig to the Bitcoin delegation'' (Err ''sign'') (Some (pk_of 2))
        \<in> set (drop (length ([] :: log_entry list))
                 (snd (snd (jurySigSubmissionLoop_tick get_three add_not_2 pk_of ([], [])))))"
proof -
  have g: "fst (get_down []) = Inl (Err ''rpc'')" by (simp add: get_down_def)
  have h: "fst (get_three []) = Inr [1, 2, 3]" by (simp add: get_three_def)
  have f: "fst (add_not_2 2 (fold (\<lambda>d t. snd (add_not_2 d t)) [1] (snd (get_three [])))) = Inl (Err ''sign'')"
    by (simp add: add_not_2_def get_three_def)
  have e: "jurySigSubmissionLoop_tick get_three add_not_2 pk_of ([], []) =
        (Continue, [1, 2, 3],
         [LogError ''failed to submit Jury sig to the Bitcoin delegation'' (Err ''sign'') (Some [2])])"
    by (simp add: jurySigSubmissionLoop_tick_def get_three_def add_not_2_def pk_of_def)
  have s: "[1, 2, 3] = [1] @ 2 # [3 :: nat]" by simp
  note t = jury_tick_survives_failures [of get_down "[]" "Err ''rpc''" add_not_2 pk_of "[]"]
  note u = jury_tick_survives_failures [of get_three "[]" _ add_not_2 pk_of "[]" "[1, 2, 3]"]
  have a: "jurySigSubmissionLoop_tick get_down add_not_2 pk_of ([], []) =
        (Continue, [], [LogError ''failed to get pending delegations'' (Err ''rpc'') None])"
    using t g by (simp add: get_down_def)
  have l: "LogError ''failed to submit Jury sig to the Bitcoin delegation'' (Err ''sign'') (Some (pk_of 2))
        \<in> set (drop (length ([] :: log_entry list))
                 (snd (snd (jurySigSubmissionLoop_tick get_three add_not_2 pk_of ([], [])))))"
    using u h f s by blast
  show ?thesis using g a h e f l by blast
qed

section \<open>The randomness commitment on every event\<close>

lemma save_rand_pairs_Continue:
  assumes "fst (save_rand_pairs k start pub i prs app) = Continue"
  shows "(prs = [] \<or> i + length prs \<le> length pub)
       \<and> trace (snd (save_rand_pairs k start pub i prs app))
           = trace app @ map (pair_call k start pub prs i) [i..<i + length prs]"
  using assms
proof (induction prs arbitrary: i app)
  case Nil
  then show ?case by simp
next
  case (Cons pr prs)
  have lt: "i < length pub"
    using Cons.prems by (cases "i < length pub") simp_all
  let ?c = "CallSaveRandPair k (start + word_of_nat i) \<lparr>SecRand = pr, PubRand = pub ! i\<rparr>"
  obtain e app1 where c: "call_vs ?c app = (e, app1)" by (cases "call_vs ?c app")
  have e: "e = None"
    using Cons.prems lt c by (cases e) (simp_all add: Fatal_def)
  have t1: "trace app1 = trace app @ [Store ?c True]"
    using call_vs_trace [OF c] e by simp
  have r: "save_rand_pairs k start pub i (pr # prs) app = save_rand_pairs k start pub (Suc i) prs app1"
    using lt c e by simp
  with Cons.prems have "fst (save_rand_pairs k start pub (Suc i) prs app1) = Continue" by simp
  note ih = Cons.IH [OF this]
  have m: "map (pair_call k start pub prs (Suc i)) [Suc i..<Suc i + length prs]
         = map (pair_call k start pub (pr # prs) i) [Suc i..<Suc i + length prs]"
  proof (rule map_cong [OF refl])
    fix j
    assume "j \<in> set [Suc i..<Suc i + length prs]"
    then have "Suc i \<le> j" by (simp del: upt_Suc)
    then have "j - i = Suc (j - Suc i)" by simp
    then show "pair_call k start pub prs (Suc i) j = pair_call k start pub (pr # prs) i j"
      by (simp add: pair_call_def)
  qed
  have "i < i + length (pr # prs)" by simp
  from upt_conv_Cons [OF this]
  have u: "[i..<i + length (pr # prs)] = i # [Suc i..<Suc i + length prs]"
    by (simp del: upt_Suc)
  have "i + length (pr # prs) \<le> length pub"
    using ih lt by auto
  moreover have "trace (snd (save_rand_pairs k start pub i (pr # prs) app))
           = trace app @ map (pair_call k start pub (pr # prs) i) [i..<i + length (pr # prs)]"
    using ih t1 r m by (simp only: u) (simp del: upt_Suc add: pair_call_def)
  ultimately show ?case by blast
qed

lemma on_pubRandCommitted_Continue:
  assumes g: "GetValidator (vs app) (pubRandCommittedEvent.bbnPubKey ev) = Inr val"
    and c: "fst (on_pubRandCommitted ev app) = Continue"
  shows "length (pubRandCommittedEvent.privRandList ev) \<le> length (pubRandCommittedEvent.pubRandList ev)
    \<and> trace (snd (on_pubRandCommitted ev app)) = trace app @
        Store (CallSaveValidator (val\<lparr>LastCommittedHeight :=
                 pubRandCommittedEvent.startingHeight ev
                 + word_of_nat (length (pubRandCommittedEvent.pubRandList ev)) - 1\<rparr>)) True
        # map (\<lambda>i. Store (CallSaveRandPair (pubRandCommittedEvent.bbnPubKey ev)
                           (pubRandCommittedEvent.startingHeight ev + word_of_nat i)
                           \<lparr>SecRand = pubRandCommittedEvent.privRandList ev ! i,
                            PubRand = pubRandCommittedEvent.pubRandList ev ! i\<rparr>) True)
              [0..<length (pubRandCommittedEvent.privRandList ev)]
        @ [Send (pubRandCommittedEvent.successResponse ev)
             (commitPubRandResponse (pubRandCommittedEvent.txHash ev))]"
proof -
  let ?v = "val\<lparr>LastCommittedHeight := pubRandCommittedEvent.startingHeight ev
                 + word_of_int (int (length (pubRandCommittedEvent.pubRandList ev)) - 1)\<rparr>"
  let ?c = "CallSaveValidator ?v"
  obtain e app1 where cv: "call_vs ?c app = (e, app1)" by (cases "call_vs ?c app")
  have e: "e = None"
    using c g cv by (cases e) (simp_all add: on_pubRandCommitted_def Fatal_def)
  have t1: "trace app1 = trace app @ [Store ?c True]"
    using call_vs_trace [OF cv] e by simp
  let ?r = "save_rand_pairs (pubRandCommittedEvent.bbnPubKey ev)
                  (pubRandCommittedEvent.startingHeight ev) (pubRandCommittedEvent.pubRandList ev) 0
                  (pubRandCommittedEvent.privRandList ev) app1"
  obtain st app2 where r: "?r = (st, app2)" by (cases ?r)
  have st: "st = Continue"
    using c g cv e r by (cases st) (simp_all add: on_pubRandCommitted_def)
  then have "fst ?r = Continue" using r by simp
  note s = save_rand_pairs_Continue [OF this]
  have p: "pair_call k s pub prs 0 = (\<lambda>i. Store (CallSaveRandPair k (s + word_of_nat i)
                           \<lparr>SecRand = prs ! i, PubRand = pub ! i\<rparr>) True)" for k s pub prs
    by (rule ext) (simp add: pair_call_def)
  have l: "length (pubRandCommittedEvent.privRandList ev) \<le> length (pubRandCommittedEvent.pubRandList ev)"
    using s by auto
  have o: "on_pubRandCommitted ev app = (Continue, send (pubRandCommittedEvent.successResponse ev)
                          (commitPubRandResponse (pubRandCommittedEvent.txHash ev)) app2)"
    using g cv e r st by (simp add: on_pubRandCommitted_def)
  have "trace app2 = trace app1 @ map (pair_call (pubRandCommittedEvent.bbnPubKey ev)
          (pubRandCommittedEvent.startingHeight ev) (pubRandCommittedEvent.pubRandList ev)
          (pubRandCommittedEvent.privRandList ev) 0) [0..<length (pubRandCommittedEvent.privRandList ev)]"
    using s r by simp
  with o t1 l show ?thesis by (simp add: send_def p add.commute)
qed

text \<open>
  Claim C3, amended. For a randomness-commitment-completion event whose validator is in
  the store, whenever the handler ends in \<open>Continue\<close> (as it does when every write succeeds
  and the secret list is no longer than the public list), it has saved the validator with
  \<open>LastCommittedHeight\<close> equal to the starting height plus the number of public values
  minus one, then saved one pair per secret value, at the starting height and the heights
  after it in that order, then sent the response with the transaction hash, and done
  nothing else. The heights are strictly increasing when they do not wrap around.
\<close>

theorem pubRandCommitted_persists_secrets:
  assumes "GetValidator (vs app) (pubRandCommittedEvent.bbnPubKey ev) = Inr val"
  shows "(fst (on_pubRandCommitted ev app) = Continue \<longrightarrow>
      length (pubRandCommittedEvent.privRandList ev) \<le> length (pubRandCommittedEvent.pubRandList ev)
    \<and> trace (snd (on_pubRandCommitted ev app)) = trace app @
        Store (CallSaveValidator (val\<lparr>LastCommittedHeight :=
                 pubRandCommittedEvent.startingHeight ev
                 + word_of_nat (length (pubRandCommittedEvent.pubRandList ev)) - 1\<rparr>)) True
        # map (\<lambda>i. Store (CallSaveRandPair (pubRandCommittedEvent.bbnPubKey ev)
                           (pubRandCommittedEvent.startingHeight ev + word_of_nat i)
                           \<lparr>SecRand = pubRandCommittedEvent.privRandList ev ! i,
                            PubRand = pubRandCommittedEvent.pubRandList ev ! i\<rparr>) True)
              [0..<length (pubRandCommittedEvent.privRandList ev)]
        @ [Send (pubRandCommittedEvent.successResponse ev)
             (commitPubRandResponse (pubRandCommittedEvent.txHash ev))])
   \<and> (True \<notin> set (faults (vs app))
       \<and> length (pubRandCommittedEvent.privRandList ev) \<le> length (pubRandCommittedEvent.pubRandList ev)
      \<longrightarrow> fst (on_pubRandCommitted ev app) = Continue)
   \<and> (unat (pubRandCommittedEvent.startingHeight ev) + length (pubRandCommittedEvent.privRandList ev)
         \<le> 2 ^ 64
      \<longrightarrow> sorted_wrt (<) (map (\<lambda>i. pubRandCommittedEvent.startingHeight ev + word_of_nat i)
                              [0..<length (pubRandCommittedEvent.privRandList ev)]))"
proof -
  have s: "unat (pubRandCommittedEvent.startingHeight ev) + length (pubRandCommittedEvent.privRandList ev)
         \<le> 2 ^ 64
      \<longrightarrow> sorted_wrt (<) (map (\<lambda>i. pubRandCommittedEvent.startingHeight ev + word_of_nat i)
                              [0..<length (pubRandCommittedEvent.privRandList ev)])"
    by (auto simp: sorted_wrt_map sorted_wrt_iff_nth_less intro: heights_increase)
  have c: "fst (on_pubRandCommitted ev app) = Continue"
    if "True \<notin> set (faults (vs app))"
      and "length (pubRandCommittedEvent.privRandList ev) \<le> length (pubRandCommittedEvent.pubRandList ev)"
    using on_pubRandCommitted_ok [OF assms that(1)] that(2) by auto
  show ?thesis
    using on_pubRandCommitted_Continue [OF assms] s c by blast
qed

text \<open>Starting at height 100 with three values: the new height is 102 and three pairs are saved.\<close>

theorem pubRandCommitted_persists_secrets_witness:
  "GetValidator (vs app0) (pubRandCommittedEvent.bbnPubKey (commit_ev 100 [[11], [12], [13]] [[21], [22], [23]]))
     = Inr validator0
   \<and> True \<notin> set (faults (vs app0))
   \<and> fst (on_pubRandCommitted (commit_ev 100 [[11], [12], [13]] [[21], [22], [23]]) app0) = Continue
   \<and> trace (snd (on_pubRandCommitted (commit_ev 100 [[11], [12], [13]] [[21], [22], [23]]) app0)) =
       [Store (CallSaveValidator (validator0\<lparr>LastCommittedHeight := 102\<rparr>)) True,
        Store (CallSaveRandPair pk1 100 \<lparr>SecRand = [11], PubRand = [21]\<rparr>) True,
        Store (CallSaveRandPair pk1 101 \<lparr>SecRand = [12], PubRand = [22]\<rparr>) True,
        Store (CallSaveRandPair pk1 102 \<lparr>SecRand = [13], PubRand = [23]\<rparr>) True,
        Send 7 (commitPubRandResponse [9])]
   \<and> sorted_wrt (<) (map (\<lambda>i. (100 :: uint64) + word_of_nat i) [0..<3])"
proof -
  have g: "GetValidator (vs app0) (pubRandCommittedEvent.bbnPubKey (commit_ev 100 [[11], [12], [13]] [[21], [22], [23]]))
     = Inr validator0"
    by (simp add: GetValidator_def app0_def store0_def commit_ev_def)
  have f: "True \<notin> set (faults (vs app0))"
    by (simp add: app0_def store0_def)
  note t = pubRandCommitted_persists_secrets [OF g]
  have c: "fst (on_pubRandCommitted (commit_ev 100 [[11], [12], [13]] [[21], [22], [23]]) app0) = Continue"
    using t f by (simp add: commit_ev_def)
  have u: "[0..<3] = [0, 1, 2]" by (simp add: upt_rec)
  have tr: "trace (snd (on_pubRandCommitted (commit_ev 100 [[11], [12], [13]] [[21], [22], [23]]) app0)) =
       [Store (CallSaveValidator (validator0\<lparr>LastCommittedHeight := 102\<rparr>)) True,
        Store (CallSaveRandPair pk1 100 \<lparr>SecRand = [11], PubRand = [21]\<rparr>) True,
        Store (CallSaveRandPair pk1 101 \<lparr>SecRand = [12], PubRand = [22]\<rparr>) True,
        Store (CallSaveRandPair pk1 102 \<lparr>SecRand = [13], PubRand = [23]\<rparr>) True,
        Send 7 (commitPubRandResponse [9])]"
    using t c by (simp add: commit_ev_def app0_def u)
  have so: "sorted_wrt (<) (map (\<lambda>i. (100 :: uint64) + word_of_nat i) [0..<3])"
    by (simp add: u)
  show ?thesis using g f c tr so by blast
qed

text \<open>
  Claim C3 as stated fails. With one secret value for two public ones the handler ends
  well with the committed height 101, but the only pair saved is that of height 100: the
  height 101 of the committed range has none. And from the starting height \<open>2^64 - 1\<close> the
  second pair is saved at height 0, below the first.
\<close>

theorem pubRandCommitted_persists_range_counterexample:
  "fst (on_pubRandCommitted (commit_ev 100 [[11]] [[21], [22]]) app0) = Continue
   \<and> trace (snd (on_pubRandCommitted (commit_ev 100 [[11]] [[21], [22]]) app0)) =
       [Store (CallSaveValidator (validator0\<lparr>LastCommittedHeight := 101\<rparr>)) True,
        Store (CallSaveRandPair pk1 100 \<lparr>SecRand = [11], PubRand = [21]\<rparr>) True,
        Send 7 (commitPubRandResponse [9])]
   \<and> randPairs (vs (snd (on_pubRandCommitted (commit_ev 100 [[11]] [[21], [22]]) app0))) (pk1, 101) = None
   \<and> trace (snd (on_pubRandCommitted (commit_ev 18446744073709551615 [[11], [12]] [[21], [22]]) app0)) =
       [Store (CallSaveValidator (validator0\<lparr>LastCommittedHeight := 0\<rparr>)) True,
        Store (CallSaveRandPair pk1 18446744073709551615 \<lparr>SecRand = [11], PubRand = [21]\<rparr>) True,
        Store (CallSaveRandPair pk1 0 \<lparr>SecRand = [12], PubRand = [22]\<rparr>) True,
        Send 7 (commitPubRandResponse [9])]
   \<and> \<not> (18446744073709551615 :: uint64) < 0"
  by (simp add: on_pubRandCommitted_def GetValidator_def app0_def store0_def commit_ev_def
        call_vs_def SaveValidator_def SaveRandPair_def durable_write_def send_def Let_def
        validator0_def)

text \<open>
  Claim C9, amended. With an empty public list, an existing validator and a successful
  save, \<open>LastCommittedHeight\<close> becomes the starting height minus one in 64-bit wrap-around
  arithmetic, which is \<open>2^64 - 1\<close> for the starting height 0, and no pair is saved. When the
  secret list is empty too the response is sent; otherwise the handler panics at the first
  read of the public list, without a reply.
\<close>

theorem pubRandCommitted_empty_public_list:
  assumes "GetValidator (vs app) (pubRandCommittedEvent.bbnPubKey ev) = Inr val"
    and "pubRandCommittedEvent.pubRandList ev = []"
    and "fst (SaveValidator (vs app)
               (val\<lparr>LastCommittedHeight := pubRandCommittedEvent.startingHeight ev - 1\<rparr>)) = None"
  shows "fst (on_pubRandCommitted ev app)
           = (if pubRandCommittedEvent.privRandList ev = [] then Continue else Panicked)
    \<and> trace (snd (on_pubRandCommitted ev app)) = trace app @
        Store (CallSaveValidator
                 (val\<lparr>LastCommittedHeight := pubRandCommittedEvent.startingHeight ev - 1\<rparr>)) True
        # (if pubRandCommittedEvent.privRandList ev = []
           then [Send (pubRandCommittedEvent.successResponse ev)
                   (commitPubRandResponse (pubRandCommittedEvent.txHash ev))]
           else [])
    \<and> unat (pubRandCommittedEvent.startingHeight ev - 1)
        = (unat (pubRandCommittedEvent.startingHeight ev) + (2 ^ 64 - 1)) mod 2 ^ 64
    \<and> (pubRandCommittedEvent.startingHeight ev = 0
        \<longrightarrow> unat (pubRandCommittedEvent.startingHeight ev - 1) = 2 ^ 64 - 1)"
proof -
  have w: "unat (x - 1) = (unat x + (2 ^ 64 - 1)) mod 2 ^ 64" for x :: uint64
  proof (cases "x = 0")
    case True
    then show ?thesis by (simp add: unsigned_minus_1_eq_mask mask_eq_exp_minus_1)
  next
    case False
    then have a: "unat (x - 1) = unat x - 1" by (rule unat_minus_one)
    have b: "0 < unat x" using False by (simp add: unat_gt_0)
    have c: "unat x < 2 ^ 64" using unsigned_less [of x] by simp
    have "unat x + (2 ^ 64 - 1) = (unat x - 1) + 2 ^ 64" using b by simp
    then have "(unat x + (2 ^ 64 - 1)) mod 2 ^ 64 = (unat x - 1) mod 2 ^ 64"
      by (simp only: mod_add_self2)
    also have "\<dots> = unat x - 1" using c by simp
    finally show ?thesis using a by simp
  qed
  let ?v = "val\<lparr>LastCommittedHeight := pubRandCommittedEvent.startingHeight ev - 1\<rparr>"
  obtain e app1 where cv: "call_vs (CallSaveValidator ?v) app = (e, app1)"
    by (cases "call_vs (CallSaveValidator ?v) app")
  have e: "e = None"
    using fst_call_vs [of "CallSaveValidator ?v" app] cv assms(3) by simp
  have t1: "trace app1 = trace app @ [Store (CallSaveValidator ?v) True]"
    using call_vs_trace [OF cv] e by simp
  have h: "fst (on_pubRandCommitted ev app)
           = (if pubRandCommittedEvent.privRandList ev = [] then Continue else Panicked)
    \<and> trace (snd (on_pubRandCommitted ev app)) = trace app @
        Store (CallSaveValidator ?v) True
        # (if pubRandCommittedEvent.privRandList ev = []
           then [Send (pubRandCommittedEvent.successResponse ev)
                   (commitPubRandResponse (pubRandCommittedEvent.txHash ev))]
           else [])"
    using assms(1) assms(2) cv e t1
    by (cases "pubRandCommittedEvent.privRandList ev")
       (simp_all add: on_pubRandCommitted_def send_def)
  show ?thesis
    using h w by (auto simp: unsigned_minus_1_eq_mask mask_eq_exp_minus_1)
qed

text \<open>The empty commitment at height 0.\<close>

theorem pubRandCommitted_empty_public_list_witness:
  "GetValidator (vs app0) (pubRandCommittedEvent.bbnPubKey (commit_ev 0 [] [])) = Inr validator0
   \<and> pubRandCommittedEvent.pubRandList (commit_ev 0 [] []) = []
   \<and> fst (SaveValidator (vs app0)
            (validator0\<lparr>LastCommittedHeight := pubRandCommittedEvent.startingHeight (commit_ev 0 [] []) - 1\<rparr>))
       = None
   \<and> fst (on_pubRandCommitted (commit_ev 0 [] []) app0) = Continue
   \<and> trace (snd (on_pubRandCommitted (commit_ev 0 [] []) app0)) =
       [Store (CallSaveValidator (validator0\<lparr>LastCommittedHeight := 18446744073709551615\<rparr>)) True,
        Send 7 (commitPubRandResponse [9])]"
proof -
  have g: "GetValidator (vs app0) (pubRandCommittedEvent.bbnPubKey (commit_ev 0 [] [])) = Inr validator0"
    by (simp add: GetValidator_def app0_def store0_def commit_ev_def)
  have e: "pubRandCommittedEvent.pubRandList (commit_ev 0 [] []) = []"
    by (simp add: commit_ev_def)
  have f: "fst (SaveValidator (vs app0)
            (validator0\<lparr>LastCommittedHeight := pubRandCommittedEvent.startingHeight (commit_ev 0 [] []) - 1\<rparr>))
       = None"
    by (simp add: SaveValidator_def durable_write_def app0_def store0_def)
  show ?thesis
    using pubRandCommitted_empty_public_list [OF g e f] g e f
    by (simp add: commit_ev_def app0_def)
qed

text \<open>
  Claim C9 as stated fails. With an empty public list and one secret value the handler
  saves the wrapped height and panics at \<^verbatim>\<open>ev.pubRandList[0]\<close>: no reply is sent.
\<close>

theorem pubRandCommitted_empty_list_counterexample:
  "pubRandCommittedEvent.pubRandList (commit_ev 0 [[11]] []) = []
   \<and> fst (on_pubRandCommitted (commit_ev 0 [[11]] []) app0) = Panicked
   \<and> trace (snd (on_pubRandCommitted (commit_ev 0 [[11]] []) app0)) =
       [Store (CallSaveValidator (validator0\<lparr>LastCommittedHeight := 18446744073709551615\<rparr>)) True]
   \<and> sends (trace (snd (on_pubRandCommitted (commit_ev 0 [[11]] []) app0))) = []"
  by (simp add: on_pubRandCommitted_def GetValidator_def app0_def store0_def commit_ev_def
        call_vs_def SaveValidator_def durable_write_def Let_def)

section \<open>The serializer and its blocking sends\<close>

lemma calls_trace_update: "calls (app\<lparr>trace := t\<rparr>) = calls app"
  by simp

lemma waiting_trace: "waiting c (app\<lparr>trace := t\<rparr>) = waiting c app"
  by (cases c) simp_all

lemma await_serves:
  assumes "waiting c app = r # q"
  shows "\<exists>out. handleSentToBabylonLoop_await ready bc c app = Some out
           \<and> calls (app_of out) = calls app @ [call_of r]"
proof -
  obtain app1 where a: "handleSentToBabylonLoop_step bc c app = Some (Continue, app1)"
    and c: "calls app1 = calls app @ [call_of r]"
    using step_serves [where bc = bc, OF assms] by blast
  have "calls (app_of (await_sends ready app (Continue, app1))) = calls app1"
    by (simp add: await_sends_def split: option.split)
  with a c show ?thesis by (simp add: handleSentToBabylonLoop_await_def)
qed

text \<open>
  Claim C4, amended. When the chain call made for the oldest request of the channel the
  serializer receives from fails, the serializer logs the error and sends it on the error
  channel of that request; it emits no completion event and leaves the store and the other
  waiting requests alone. If that channel is ready for the message the iteration ends in
  \<open>Continue\<close>, and whichever waiting request the loop receives next gets its chain call. If
  it is not, the loop is blocked at that send and runs no further iteration.
\<close>

theorem chain_failure_reaches_caller_or_blocks:
  assumes "waiting c app = r # q" and "bc (calls app) (call_of r) = Inl e"
  shows "\<exists>app1.
     handleSentToBabylonLoop_await ready bc c app =
       Some (if ready (errResponse_of r) then Completed Continue app1
             else Blocked (errResponse_of r) (ErrorMsg e) app1)
   \<and> new_effects app app1 =
        Log ErrorLevel (failure_message r) (Some e)
        # (if ready (errResponse_of r) then [Send (errResponse_of r) (ErrorMsg e)] else [])
   \<and> emitted app app1 = [] \<and> waiting_events app1 = waiting_events app
   \<and> vs app1 = vs app
   \<and> calls app1 = calls app @ [call_of r]
   \<and> waiting c app1 = q
   \<and> (\<forall>c'. c' \<noteq> c \<longrightarrow> waiting c' app1 = waiting c' app)
   \<and> (ready (errResponse_of r) \<longrightarrow>
        (\<forall>c' r' q'. waiting c' app1 = r' # q' \<longrightarrow>
           (\<exists>out. handleSentToBabylonLoop_await ready bc c' app1 = Some out
                 \<and> calls (app_of out) = calls app1 @ [call_of r'])))
   \<and> (\<not> ready (errResponse_of r) \<longrightarrow>
        (\<forall>c' as. run_await ready bc (Serve c' # as)
                    (Blocked (errResponse_of r) (ErrorMsg e) app1) = None))"
proof -
  obtain app1 where a: "handleSentToBabylonLoop_step bc c app = Some (Continue, app1)"
    and n: "new_effects app app1 =
         [Log ErrorLevel (failure_message r) (Some e), Send (errResponse_of r) (ErrorMsg e)]"
    and em: "emitted app app1 = []" and we: "waiting_events app1 = waiting_events app"
    and v: "vs app1 = vs app"
    and c: "calls app1 = calls app @ [call_of r]"
    and w: "waiting c app1 = q"
    and o: "\<forall>c'. c' \<noteq> c \<longrightarrow> waiting c' app1 = waiting c' app"
    using failed_call_step
            [where bc = bc and c = c and app = app and r = r and q = q and e = e, OF assms]
    by blast
  show ?thesis
  proof (cases "ready (errResponse_of r)")
    case True
    have "handleSentToBabylonLoop_await ready bc c app = Some (Completed Continue app1)"
      using a n True by (simp add: handleSentToBabylonLoop_await_def await_sends_def)
    moreover have "\<forall>c' r' q'. waiting c' app1 = r' # q' \<longrightarrow>
           (\<exists>out. handleSentToBabylonLoop_await ready bc c' app1 = Some out
                 \<and> calls (app_of out) = calls app1 @ [call_of r'])"
      using await_serves [of _ app1 _ _ ready bc] by blast
    ultimately show ?thesis
      using True n em we v c w o by auto
  next
    case False
    let ?b = "app1\<lparr>trace := trace app @ [Log ErrorLevel (failure_message r) (Some e)]\<rparr>"
    have "handleSentToBabylonLoop_await ready bc c app
            = Some (Blocked (errResponse_of r) (ErrorMsg e) ?b)"
      using a n False by (simp add: handleSentToBabylonLoop_await_def await_sends_def)
    moreover have "new_effects app ?b = [Log ErrorLevel (failure_message r) (Some e)]"
      by (simp add: new_effects_def)
    moreover have "emitted app ?b = [] \<and> waiting_events ?b = waiting_events app"
      using em we by (simp add: emitted_def waiting_events_def)
    moreover have "vs ?b = vs app \<and> calls ?b = calls app @ [call_of r]"
      using v c by simp
    moreover have "waiting c ?b = q \<and> (\<forall>c'. c' \<noteq> c \<longrightarrow> waiting c' ?b = waiting c' app)"
      using w o by (simp add: waiting_trace)
    ultimately show ?thesis
      using False by (intro exI [of _ ?b]) simp
  qed
qed

text \<open>
  The jury-signature request whose call fails, with the finality-signature request
  waiting. When every caller receives, the error goes to channel 20 and the next iteration
  submits the finality signature; when the caller behind channel 20 does not, the loop is
  blocked at the send.
\<close>

theorem chain_failure_reaches_caller_or_blocks_witness:
  "waiting RecvAddJurySigRequest app_two = [AddJurySig jury_req]
   \<and> bc_no_jury (calls app_two) (call_of (AddJurySig jury_req)) = Inl (Err ''rpc'')
   \<and> all_ready (errResponse_of (AddJurySig jury_req))
   \<and> (\<exists>app1. handleSentToBabylonLoop_await all_ready bc_no_jury RecvAddJurySigRequest app_two
                = Some (Completed Continue app1)
        \<and> trace app1 = [Log ErrorLevel ''failed to submit Jury signature'' (Some (Err ''rpc'')),
                         Send 20 (ErrorMsg (Err ''rpc''))]
        \<and> jurySigAddedEventChan app1 = []
        \<and> (\<exists>out. handleSentToBabylonLoop_await all_ready bc_no_jury RecvAddFinalitySigRequest app1
                     = Some out
              \<and> calls (app_of out) = [SubmitJurySig [2] [6] [8], SubmitFinalitySig [2] 101 [3] [4]]))
   \<and> \<not> deaf_20 (errResponse_of (AddJurySig jury_req))
   \<and> (\<exists>app1. handleSentToBabylonLoop_await deaf_20 bc_no_jury RecvAddJurySigRequest app_two
                = Some (Blocked 20 (ErrorMsg (Err ''rpc'')) app1)
        \<and> trace app1 = [Log ErrorLevel ''failed to submit Jury signature'' (Some (Err ''rpc''))]
        \<and> run_await deaf_20 bc_no_jury [Serve RecvAddFinalitySigRequest]
             (Blocked 20 (ErrorMsg (Err ''rpc'')) app1) = None)"
proof -
  have w: "waiting RecvAddJurySigRequest app_two = [AddJurySig jury_req]"
    by (simp add: app_two_def app0_def)
  have b: "bc_no_jury (calls app_two) (call_of (AddJurySig jury_req)) = Inl (Err ''rpc'')"
    by (simp add: bc_no_jury_def)
  have r1: "all_ready (errResponse_of (AddJurySig jury_req))" by (simp add: all_ready_def)
  have r2: "\<not> deaf_20 (errResponse_of (AddJurySig jury_req))"
    by (simp add: deaf_20_def jury_req_def)
  have ch: "errResponse_of (AddJurySig jury_req) = 20" by (simp add: jury_req_def)
  have tr: "trace app_two = []" "calls app_two = []" "jurySigAddedEventChan app_two = []"
    "waiting RecvAddFinalitySigRequest app_two = [AddFinalitySig finality_req]"
    by (simp_all add: app_two_def app0_def)
  obtain app1 where a: "handleSentToBabylonLoop_await all_ready bc_no_jury RecvAddJurySigRequest app_two
       = Some (Completed Continue app1)"
    and n: "new_effects app_two app1 =
        [Log ErrorLevel (failure_message (AddJurySig jury_req)) (Some (Err ''rpc'')),
         Send (errResponse_of (AddJurySig jury_req)) (ErrorMsg (Err ''rpc''))]"
    and we: "waiting_events app1 = waiting_events app_two"
    and c: "calls app1 = calls app_two @ [call_of (AddJurySig jury_req)]"
    and o: "\<forall>c'. c' \<noteq> RecvAddJurySigRequest \<longrightarrow> waiting c' app1 = waiting c' app_two"
    and nx: "\<forall>c' r' q'. waiting c' app1 = r' # q' \<longrightarrow>
           (\<exists>out. handleSentToBabylonLoop_await all_ready bc_no_jury c' app1 = Some out
                 \<and> calls (app_of out) = calls app1 @ [call_of r'])"
    using chain_failure_reaches_caller_or_blocks
            [where ready = all_ready and bc = bc_no_jury and c = RecvAddJurySigRequest
               and app = app_two and r = "AddJurySig jury_req" and q = "[]" and e = "Err ''rpc''",
             OF w b] r1
    by auto
  have t1: "trace app1 = [Log ErrorLevel ''failed to submit Jury signature'' (Some (Err ''rpc'')),
                         Send 20 (ErrorMsg (Err ''rpc''))]"
    using n tr(1) by (simp add: new_effects_def jury_req_def)
  have j1: "jurySigAddedEventChan app1 = []"
    using we tr(3) by (simp add: waiting_events_def)
  have "waiting RecvAddFinalitySigRequest app1 = waiting RecvAddFinalitySigRequest app_two"
    using o by blast
  then have f1: "waiting RecvAddFinalitySigRequest app1 = [AddFinalitySig finality_req]"
    using tr(4) by simp
  obtain out where "handleSentToBabylonLoop_await all_ready bc_no_jury RecvAddFinalitySigRequest app1
                     = Some out"
    and "calls (app_of out) = calls app1 @ [call_of (AddFinalitySig finality_req)]"
    using nx f1 by blast
  then have x1: "\<exists>out. handleSentToBabylonLoop_await all_ready bc_no_jury RecvAddFinalitySigRequest app1
                     = Some out
              \<and> calls (app_of out) = [SubmitJurySig [2] [6] [8], SubmitFinalitySig [2] 101 [3] [4]]"
    using c tr(2) by (simp add: jury_req_def finality_req_def)
  obtain app2 where a2: "handleSentToBabylonLoop_await deaf_20 bc_no_jury RecvAddJurySigRequest app_two
       = Some (Blocked (errResponse_of (AddJurySig jury_req)) (ErrorMsg (Err ''rpc'')) app2)"
    and n2: "new_effects app_two app2 =
        [Log ErrorLevel (failure_message (AddJurySig jury_req)) (Some (Err ''rpc''))]"
    and st: "\<forall>c' as. run_await deaf_20 bc_no_jury (Serve c' # as)
                    (Blocked (errResponse_of (AddJurySig jury_req)) (ErrorMsg (Err ''rpc'')) app2) = None"
    using chain_failure_reaches_caller_or_blocks
            [where ready = deaf_20 and bc = bc_no_jury and c = RecvAddJurySigRequest
               and app = app_two and r = "AddJurySig jury_req" and q = "[]" and e = "Err ''rpc''",
             OF w b] r2
    by auto
  have t2: "trace app2 = [Log ErrorLevel ''failed to submit Jury signature'' (Some (Err ''rpc''))]"
    using n2 tr(1) by (simp add: new_effects_def)
  have s2: "run_await deaf_20 bc_no_jury [Serve RecvAddFinalitySigRequest]
             (Blocked 20 (ErrorMsg (Err ''rpc'')) app2) = None"
    using st ch by simp
  have a2': "handleSentToBabylonLoop_await deaf_20 bc_no_jury RecvAddJurySigRequest app_two
       = Some (Blocked 20 (ErrorMsg (Err ''rpc'')) app2)"
    using a2 ch by simp
  show ?thesis
    using w b r1 a t1 j1 x1 r2 a2' t2 s2 by blast
qed

text \<open>
  Claim C4 as stated fails. The chain call of the jury-signature request fails and nobody
  receives on its error channel 20: the serializer is blocked at that send, the error is
  not delivered, and the finality-signature request that waits is never served.
\<close>

theorem chain_failure_stalls_counterexample:
  "handleSentToBabylonLoop_await deaf_20 bc_no_jury RecvAddJurySigRequest app_two =
     Some (Blocked 20 (ErrorMsg (Err ''rpc''))
            (app0\<lparr>calls := [SubmitJurySig [2] [6] [8]],
                  addFinalitySigRequestChan := [finality_req],
                  trace := [Log ErrorLevel ''failed to submit Jury signature'' (Some (Err ''rpc''))]\<rparr>))
   \<and> run_await deaf_20 bc_no_jury [Serve RecvAddJurySigRequest, Serve RecvAddFinalitySigRequest]
        (Completed Continue app_two) = None
   \<and> run_await all_ready bc_no_jury [Serve RecvAddJurySigRequest, Serve RecvAddFinalitySigRequest]
        (Completed Continue app_two) \<noteq> None"
  by (simp add: handleSentToBabylonLoop_await_def await_sends_def app_two_def app0_def
        on_addJurySigRequest_def on_addFinalitySigRequest_def call_bc_def bc_no_jury_def
        send_def logger_def new_effects_def deaf_20_def all_ready_def jury_req_def
        finality_req_def Let_def)

end
